theory Spec2Isabelle
  imports Main
begin

section \<open>Strings and exceptions\<close>

text \<open>
  A Python \<open>str\<close> is a sequence of Unicode code points, and \<open>len\<close> counts code points.
  A string is therefore modelled as a list of code points, each a natural number;
  \<open>ustr\<close> embeds an ASCII literal.
\<close>

type_synonym ustring = "nat list"

definition ustr :: "string \<Rightarrow> ustring" where
  "ustr s = map of_char s"

text \<open>
  The exceptions that the modelled code can meet. \<open>ValueError\<close>, \<open>IndexError\<close> and
  \<open>OverflowError\<close> carry their message (what \<open>str(error)\<close> returns).
\<close>

datatype exn =
    ValueError ustring
  | IndexError ustring
  | OverflowError ustring
  | FileNotFoundError
  | PermissionError
  | UnpicklingError

subsection \<open>Digits\<close>

text \<open>
  \<open>str.isdigit\<close> and the regular expression class \<open>\d\<close> are defined by the Unicode
  character database of the interpreter, not by the ASCII range. The tables below are
  those of Unicode 14.0 (CPython 3.11). A decimal digit (general category Nd) belongs to
  a run of ten consecutive code points whose first one is the digit zero;
  \<open>decimal_zeros\<close> lists the first code point of every run.
\<close>

definition decimal_zeros :: "nat list" where
  "decimal_zeros =
    [48, 1632, 1776, 1984, 2406, 2534, 2662, 2790, 2918, 3046, 3174, 3302, 3430, 3558,
     3664, 3792, 3872, 4160, 4240, 6112, 6160, 6470, 6608, 6784, 6800, 6992, 7088, 7232,
     7248, 42528, 43216, 43264, 43472, 43504, 43600, 44016, 65296, 66720, 68912, 69734,
     69872, 69942, 70096, 70384, 70736, 70864, 71248, 71360, 71472, 71904, 72016, 72784,
     73040, 73120, 92768, 92864, 93008, 120782, 120792, 120802, 120812, 120822, 123200,
     123632, 125264, 130032]"

text \<open>
  The remaining characters for which \<open>str.isdigit\<close> holds (numeric type Digit but not
  Decimal): superscripts, subscripts, circled digits and the like, as inclusive ranges.
\<close>

definition other_digit_ranges :: "(nat \<times> nat) list" where
  "other_digit_ranges =
    [(178, 179), (185, 185), (4969, 4977), (6618, 6618), (8304, 8304), (8308, 8313),
     (8320, 8329), (9312, 9320), (9332, 9340), (9352, 9360), (9450, 9450), (9461, 9469),
     (9471, 9471), (10102, 10110), (10112, 10120), (10122, 10130), (68160, 68163),
     (69216, 69224), (69714, 69722), (127232, 127242)]"

definition in_run :: "nat \<Rightarrow> nat \<Rightarrow> bool" where
  "in_run c z = (z \<le> c \<and> c \<le> z + 9)"

definition isdecimal_cp :: "nat \<Rightarrow> bool" where
  "isdecimal_cp c = list_ex (in_run c) decimal_zeros"

definition digit_value :: "nat \<Rightarrow> nat" where
  "digit_value c = (case find (in_run c) decimal_zeros of Some z \<Rightarrow> c - z | None \<Rightarrow> 0)"

definition in_range :: "nat \<Rightarrow> nat \<Rightarrow> nat \<Rightarrow> bool" where
  "in_range lo hi c = (lo \<le> c \<and> c \<le> hi)"

definition isdigit_cp :: "nat \<Rightarrow> bool" where
  "isdigit_cp c = (isdecimal_cp c \<or> list_ex (\<lambda>(lo, hi). in_range lo hi c) other_digit_ranges)"

text \<open>\<open>s.isdigit()\<close>: every character is a digit and there is at least one character.\<close>

definition isdigit :: "ustring \<Rightarrow> bool" where
  "isdigit s = (s \<noteq> [] \<and> list_all isdigit_cp s)"

section \<open>Fields\<close>

text \<open>
  A \<open>Field\<close> object only wraps its \<open>value\<close>, so a field is modelled by the value it
  holds. A constructor either raises or returns the stored value.
\<close>

definition InvalidPhone :: exn where
  "InvalidPhone = ValueError (ustr ''Phone number must be 10 digits.'')"

definition Phone :: "ustring \<Rightarrow> exn + ustring" where
  "Phone v = (if \<not> isdigit v \<or> length v \<noteq> 10 then Inl InvalidPhone else Inr v)"

text \<open>
  The rule of the specification for a phone number, in its own words: exactly ten ASCII
  decimal digits.
\<close>

definition spec_phone_rule :: "ustring \<Rightarrow> bool" where
  "spec_phone_rule s = (length s = 10 \<and> list_all (in_range 48 57) s)"

text \<open>
  \<open>int(text)\<close> on a matched group: leading blanks are skipped and the decimal digits,
  of whatever script, are read in base ten.
\<close>

definition py_int :: "ustring \<Rightarrow> nat" where
  "py_int s = foldl (\<lambda>acc c. 10 * acc + digit_value c) 0 (dropWhile (\<lambda>c. c = 32) s)"

text \<open>\<open>str(n)\<close> for a non-negative integer, and a number zero-padded to two places.\<close>

fun digits_of :: "nat \<Rightarrow> ustring" where
  "digits_of n = (if n < 10 then [48 + n] else digits_of (n div 10) @ [48 + n mod 10])"

declare digits_of.simps [simp del]

definition pad2 :: "nat \<Rightarrow> ustring" where
  "pad2 n = (if n < 10 then 48 # digits_of n else digits_of n)"

text \<open>\<open>repr\<close> of a string that has no quote, backslash or non-printable character.\<close>

definition repr_str :: "ustring \<Rightarrow> ustring" where
  "repr_str s = [39] @ s @ [39]"

text \<open>\<open>sep.join(xs)\<close>.\<close>

fun join :: "ustring \<Rightarrow> ustring list \<Rightarrow> ustring" where
  "join sep [] = []"
| "join sep [x] = x"
| "join sep (x # y # ys) = x @ sep @ join sep (y # ys)"

section \<open>Calendar dates\<close>

text \<open>
  \<open>datetime.date\<close>: a year in 1..9999, a month and a day of the proleptic Gregorian
  calendar. The time of day that \<open>strptime\<close> returns is midnight and is dropped by
  \<open>.date()\<close> before any comparison, so it is not modelled.
\<close>

record date =
  year :: nat
  month :: nat
  day :: nat

definition is_leap :: "nat \<Rightarrow> bool" where
  "is_leap y = (y mod 4 = 0 \<and> (y mod 100 \<noteq> 0 \<or> y mod 400 = 0))"

definition days_in_month :: "nat \<Rightarrow> nat \<Rightarrow> nat" where
  "days_in_month y m =
     (if m = 2 then (if is_leap y then 29 else 28)
      else if m = 4 \<or> m = 6 \<or> m = 9 \<or> m = 11 then 30 else 31)"

text \<open>
  A date of the calendar, and a date that a \<open>date\<close> object can hold (its year is at
  most 9999).
\<close>

definition calendar_date :: "date \<Rightarrow> bool" where
  "calendar_date d = (1 \<le> year d \<and> 1 \<le> month d \<and> month d \<le> 12
                      \<and> 1 \<le> day d \<and> day d \<le> days_in_month (year d) (month d))"

definition valid_date :: "date \<Rightarrow> bool" where
  "valid_date d = (calendar_date d \<and> year d \<le> 9999)"

text \<open>The constructor \<open>date(y, m, d)\<close> with its range checks, in their order.\<close>

definition new_date :: "nat \<Rightarrow> nat \<Rightarrow> nat \<Rightarrow> exn + date" where
  "new_date y m d =
     (if y < 1 \<or> 9999 < y
        then Inl (ValueError (ustr ''year '' @ digits_of y @ ustr '' is out of range''))
      else if m < 1 \<or> 12 < m then Inl (ValueError (ustr ''month must be in 1..12''))
      else if d < 1 \<or> days_in_month y m < d
        then Inl (ValueError (ustr ''day is out of range for month''))
      else Inr \<lparr>year = y, month = m, day = d\<rparr>)"

text \<open>\<open>d.replace(year=y)\<close> builds a new date and so repeats the range checks.\<close>

definition replace_year :: "date \<Rightarrow> nat \<Rightarrow> exn + date" where
  "replace_year d y = new_date y (month d) (day d)"

text \<open>Dates compare as the tuples (year, month, day).\<close>

definition date_le :: "date \<Rightarrow> date \<Rightarrow> bool" where
  "date_le a b =
     (year a < year b \<or> (year a = year b \<and>
        (month a < month b \<or> (month a = month b \<and> day a \<le> day b))))"

text \<open>\<open>toordinal\<close> (1 January of year 1 is day 1) and \<open>weekday\<close> (Monday is 0).\<close>

definition days_before_year :: "nat \<Rightarrow> nat" where
  "days_before_year y =
     (y - 1) * 365 + (y - 1) div 4 + (y - 1) div 400 - (y - 1) div 100"

definition days_before_month :: "nat \<Rightarrow> nat \<Rightarrow> nat" where
  "days_before_month y m =
     [0, 31, 59, 90, 120, 151, 181, 212, 243, 273, 304, 334] ! (m - 1)
       + (if 2 < m \<and> is_leap y then 1 else 0)"

definition toordinal :: "date \<Rightarrow> nat" where
  "toordinal d = days_before_year (year d) + days_before_month (year d) (month d) + day d"

definition weekday :: "date \<Rightarrow> nat" where
  "weekday d = (toordinal d + 6) mod 7"

text \<open>
  \<open>d + timedelta(days=n)\<close> for \<open>n \<ge> 0\<close>: the date \<open>n\<close> days later, and OverflowError
  when that date lies after 31 December 9999. \<open>plus_days\<close> is the calendar alone.
\<close>

definition next_day :: "date \<Rightarrow> date" where
  "next_day d =
     (if day d < days_in_month (year d) (month d) then d\<lparr>day := day d + 1\<rparr>
      else if month d < 12 then d\<lparr>month := month d + 1, day := 1\<rparr>
      else \<lparr>year = year d + 1, month = 1, day = 1\<rparr>)"

definition plus_days :: "date \<Rightarrow> nat \<Rightarrow> date" where
  "plus_days d n = (next_day ^^ n) d"

definition date_add :: "date \<Rightarrow> nat \<Rightarrow> exn + date" where
  "date_add d n =
     (let r = plus_days d n
      in if 9999 < year r then Inl (OverflowError (ustr ''date value out of range''))
         else Inr r)"

text \<open>
  \<open>d.strftime("%d.%m.%Y")\<close>. The C library writes the year without padding; for the
  years from 1000 on, which is where the system clock lies, that is four digits.
\<close>

definition strftime :: "date \<Rightarrow> ustring" where
  "strftime d = pad2 (day d) @ [46] @ pad2 (month d) @ [46] @ digits_of (year d)"

subsection \<open>Parsing\<close>

text \<open>
  \<open>datetime.strptime(s, "%d.%m.%Y")\<close> compiles the format into the regular expression
  \<^verbatim>\<open>(?P<d>3[0-1]|[1-2]\d|0[1-9]|[1-9]| [1-9])\.(?P<m>1[0-2]|0[1-9]|[1-9])\.(?P<Y>\d\d\d\d)\<close>,
  matches it at the start of \<open>s\<close>, and rejects \<open>s\<close> when text remains after the match.
  Each part of the expression is a function from the text to the list of its possible
  matches (matched text and remaining text), alternatives in the order of the
  expression; the match that is found is the first of the combined list, which is what
  a backtracking matcher returns.
\<close>

definition alt1 :: "(nat \<Rightarrow> bool) \<Rightarrow> ustring \<Rightarrow> (ustring \<times> ustring) list" where
  "alt1 p s = (case s of a # r \<Rightarrow> if p a then [([a], r)] else [] | _ \<Rightarrow> [])"

definition alt2 :: "(nat \<Rightarrow> bool) \<Rightarrow> (nat \<Rightarrow> bool) \<Rightarrow> ustring \<Rightarrow> (ustring \<times> ustring) list" where
  "alt2 p q s =
     (case s of a # b # r \<Rightarrow> if p a \<and> q b then [([a, b], r)] else [] | _ \<Rightarrow> [])"

definition re_d :: "ustring \<Rightarrow> (ustring \<times> ustring) list" where
  "re_d s = alt2 (in_range 51 51) (in_range 48 49) s @ alt2 (in_range 49 50) isdecimal_cp s
            @ alt2 (in_range 48 48) (in_range 49 57) s @ alt1 (in_range 49 57) s
            @ alt2 (in_range 32 32) (in_range 49 57) s"

definition re_m :: "ustring \<Rightarrow> (ustring \<times> ustring) list" where
  "re_m s = alt2 (in_range 49 49) (in_range 48 50) s
            @ alt2 (in_range 48 48) (in_range 49 57) s @ alt1 (in_range 49 57) s"

definition re_Y :: "ustring \<Rightarrow> (ustring \<times> ustring) list" where
  "re_Y s =
     (case s of a # b # c # d # r \<Rightarrow>
        if isdecimal_cp a \<and> isdecimal_cp b \<and> isdecimal_cp c \<and> isdecimal_cp d
        then [([a, b, c, d], r)] else []
      | _ \<Rightarrow> [])"

definition re_dot :: "ustring \<Rightarrow> ustring list" where
  "re_dot s = (case s of a # r \<Rightarrow> if a = 46 then [r] else [] | _ \<Rightarrow> [])"

definition regex_matches :: "ustring \<Rightarrow> ((ustring \<times> ustring \<times> ustring) \<times> ustring) list" where
  "regex_matches s =
     [((d, m, y), r5). (d, r1) \<leftarrow> re_d s, r2 \<leftarrow> re_dot r1, (m, r3) \<leftarrow> re_m r2,
                       r4 \<leftarrow> re_dot r3, (y, r5) \<leftarrow> re_Y r4]"

definition strptime :: "ustring \<Rightarrow> exn + date" where
  "strptime s =
     (case regex_matches s of
        [] \<Rightarrow> Inl (ValueError (ustr ''time data '' @ repr_str s
                      @ ustr '' does not match format '' @ repr_str (ustr ''%d.%m.%Y'')))
      | ((d, m, y), rest) # _ \<Rightarrow>
          if rest \<noteq> [] then Inl (ValueError (ustr ''unconverted data remains: '' @ rest))
          else new_date (py_int y) (py_int m) (py_int d))"

section \<open>Fields, continued\<close>

definition InvalidDateFormat :: exn where
  "InvalidDateFormat = ValueError (ustr ''Invalid date format. Please use DD.MM.YYYY.'')"

definition Birthday :: "ustring \<Rightarrow> exn + ustring" where
  "Birthday v =
     (case strptime v of
        Inl (ValueError _) \<Rightarrow> Inl InvalidDateFormat
      | Inl e \<Rightarrow> Inl e
      | Inr _ \<Rightarrow> Inr v)"

text \<open>
  The rule of the specification for a birthday, in its own words: two digits of day, a
  dot, two digits of month, a dot, four digits of year, denoting a date of the calendar.
\<close>

definition ascii_value :: "ustring \<Rightarrow> nat" where
  "ascii_value s = foldl (\<lambda>acc c. 10 * acc + (c - 48)) 0 s"

definition spec_birthday_rule :: "ustring \<Rightarrow> bool" where
  "spec_birthday_rule s =
     (case s of
        [d1, d2, p, m1, m2, q, y1, y2, y3, y4] \<Rightarrow>
          p = 46 \<and> q = 46 \<and> list_all (in_range 48 57) [d1, d2, m1, m2, y1, y2, y3, y4]
          \<and> valid_date \<lparr>year = ascii_value [y1, y2, y3, y4], month = ascii_value [m1, m2],
                          day = ascii_value [d1, d2]\<rparr>
      | _ \<Rightarrow> False)"

text \<open>
  What \<open>strptime\<close> accepts, part by part: the texts of a day, of a month and of a year.
\<close>

definition day_text :: "ustring \<Rightarrow> bool" where
  "day_text t =
     (case t of
        [a] \<Rightarrow> in_range 49 57 a
      | [a, b] \<Rightarrow> (a = 51 \<and> in_range 48 49 b) \<or> (in_range 49 50 a \<and> isdecimal_cp b)
                   \<or> ((a = 48 \<or> a = 32) \<and> in_range 49 57 b)
      | _ \<Rightarrow> False)"

definition month_text :: "ustring \<Rightarrow> bool" where
  "month_text t =
     (case t of
        [a] \<Rightarrow> in_range 49 57 a
      | [a, b] \<Rightarrow> (a = 49 \<and> in_range 48 50 b) \<or> (a = 48 \<and> in_range 49 57 b)
      | _ \<Rightarrow> False)"

definition year_text :: "ustring \<Rightarrow> bool" where
  "year_text t = (length t = 4 \<and> list_all isdecimal_cp t)"

section \<open>Record\<close>

text \<open>
  A contact: the value of its \<open>Name\<close>, the values of its \<open>Phone\<close> objects in order, and
  the value of its \<open>Birthday\<close> if one is set. A method that can raise returns the pair
  of its outcome (the exception, or the value returned) and the object as the call
  leaves it, so that what a failed call did to the object is part of the model.
\<close>

record Record =
  name :: ustring
  phones :: "ustring list"
  birthday :: "ustring option"

definition Record_init :: "ustring \<Rightarrow> Record" where
  "Record_init n = \<lparr>name = n, phones = [], birthday = None\<rparr>"

definition set_birthday :: "ustring \<Rightarrow> Record \<Rightarrow> (exn + unit) \<times> Record" where
  "set_birthday b r =
     (case Birthday b of Inl e \<Rightarrow> (Inl e, r) | Inr v \<Rightarrow> (Inr (), r\<lparr>birthday := Some v\<rparr>))"

definition add_phone :: "ustring \<Rightarrow> Record \<Rightarrow> (exn + unit) \<times> Record" where
  "add_phone phone_value r =
     (case Phone phone_value of
        Inl e \<Rightarrow> (Inl e, r)
      | Inr phone \<Rightarrow> (Inr (), r\<lparr>phones := phones r @ [phone]\<rparr>))"

definition delete_phone :: "ustring \<Rightarrow> Record \<Rightarrow> Record" where
  "delete_phone phone_value r = r\<lparr>phones := filter (\<lambda>phone. phone \<noteq> phone_value) (phones r)\<rparr>"

definition PhoneNotFound :: "ustring \<Rightarrow> exn" where
  "PhoneNotFound old_phone = ValueError (ustr ''Phone number '' @ old_phone @ ustr '' not found.'')"

text \<open>
  The loop of \<open>update_phone\<close> over \<open>enumerate(self.phones)\<close>: \<open>idx\<close> is the index of the
  head of the part still to visit, \<open>ps\<close> the whole list. The new phone is built before
  the assignment to \<open>self.phones[idx]\<close>.
\<close>

fun update_phone_loop :: "ustring \<Rightarrow> ustring \<Rightarrow> ustring list \<Rightarrow> nat \<Rightarrow> ustring list \<Rightarrow> (exn + bool) \<times> ustring list" where
  "update_phone_loop old_phone new_phone ps idx [] = (Inl (PhoneNotFound old_phone), ps)"
| "update_phone_loop old_phone new_phone ps idx (phone # rest) =
     (if phone = old_phone
      then (case Phone new_phone of Inl e \<Rightarrow> (Inl e, ps) | Inr v \<Rightarrow> (Inr True, ps[idx := v]))
      else update_phone_loop old_phone new_phone ps (Suc idx) rest)"

definition update_phone :: "ustring \<Rightarrow> ustring \<Rightarrow> Record \<Rightarrow> (exn + bool) \<times> Record" where
  "update_phone old_phone new_phone r =
     (case update_phone_loop old_phone new_phone (phones r) 0 (phones r) of
        (res, ps) \<Rightarrow> (res, r\<lparr>phones := ps\<rparr>))"

section \<open>AddressBook\<close>

text \<open>
  The dictionary \<open>data\<close> of the book keeps its keys in insertion order, which the listing
  and the birthday query follow: it is an association list whose keys are distinct.
  Assigning to a key that is present replaces the value where it stands; assigning to a
  new key appends.
\<close>

type_synonym AddressBook = "(ustring \<times> Record) list"

fun dict_set :: "ustring \<Rightarrow> Record \<Rightarrow> AddressBook \<Rightarrow> AddressBook" where
  "dict_set k v [] = [(k, v)]"
| "dict_set k v ((k', v') # rest) =
     (if k' = k then (k', v) # rest else (k', v') # dict_set k v rest)"

definition add_record :: "Record \<Rightarrow> AddressBook \<Rightarrow> AddressBook" where
  "add_record record book = dict_set (name record) record book"

definition search :: "ustring \<Rightarrow> AddressBook \<Rightarrow> Record option" where
  "search n book = map_of book n"

definition remove_record :: "ustring \<Rightarrow> AddressBook \<Rightarrow> Record option \<times> AddressBook" where
  "remove_record n book = (map_of book n, filter (\<lambda>(k, v). k \<noteq> n) book)"

definition values_of :: "AddressBook \<Rightarrow> Record list" where
  "values_of book = map snd book"

text \<open>
  One round of the loop of \<open>upcoming_birthdays\<close>, for the date \<open>today\<close> that
  \<open>datetime.now().date()\<close> returned: the result list after the round, or the exception
  that ends the call. The chained comparison evaluates \<open>today + timedelta(days=7)\<close> only
  when \<open>today <= birthday_this_year\<close> holds. An item of the result is the pair of its
  \<open>"name"\<close> and \<open>"birthday"\<close> entries.
\<close>

definition birthday_round :: "date \<Rightarrow> (ustring \<times> ustring) list \<Rightarrow> Record \<Rightarrow> exn + (ustring \<times> ustring) list" where
  "birthday_round today result record =
     (case birthday record of
        None \<Rightarrow> Inr result
      | Some v \<Rightarrow>
          (case strptime v of
             Inl e \<Rightarrow> Inl e
           | Inr parsed \<Rightarrow>
               (case replace_year parsed (year today) of
                  Inl e \<Rightarrow> Inl e
                | Inr birthday_this_year \<Rightarrow>
                    if date_le today birthday_this_year
                    then (case date_add today 7 of
                            Inl e \<Rightarrow> Inl e
                          | Inr limit \<Rightarrow>
                              if date_le birthday_this_year limit
                              then (case (if 5 \<le> weekday birthday_this_year
                                          then date_add birthday_this_year (7 - weekday birthday_this_year)
                                          else Inr birthday_this_year) of
                                      Inl e \<Rightarrow> Inl e
                                    | Inr shown \<Rightarrow> Inr (result @ [(name record, strftime shown)]))
                              else Inr result)
                    else Inr result)))"

fun upcoming_loop :: "date \<Rightarrow> (ustring \<times> ustring) list \<Rightarrow> Record list \<Rightarrow> exn + (ustring \<times> ustring) list" where
  "upcoming_loop today result [] = Inr result"
| "upcoming_loop today result (record # rest) =
     (case birthday_round today result record of
        Inl e \<Rightarrow> Inl e
      | Inr result' \<Rightarrow> upcoming_loop today result' rest)"

definition upcoming_birthdays :: "date \<Rightarrow> AddressBook \<Rightarrow> exn + (ustring \<times> ustring) list" where
  "upcoming_birthdays today book = upcoming_loop today [] (values_of book)"

text \<open>
  The query as the specification words it. \<open>reanchor p y\<close> is the date with the day and
  the month of \<open>p\<close> in the year \<open>y\<close>, if the calendar has that date; \<open>anchored_date\<close> is
  the birthday's date re-anchored to today's year, for a record that has a birthday
  which can be so re-anchored; \<open>in_window\<close> is \<open>today <= anchored_date <= today + 7 days\<close>;
  \<open>shown_date\<close> is the shift rule; \<open>report\<close> is the item for a record, if it has one.
\<close>

definition reanchor :: "date \<Rightarrow> nat \<Rightarrow> date option" where
  "reanchor p y =
     (if valid_date \<lparr>year = y, month = month p, day = day p\<rparr>
      then Some \<lparr>year = y, month = month p, day = day p\<rparr> else None)"

definition anchored_date :: "date \<Rightarrow> Record \<Rightarrow> date option" where
  "anchored_date today r =
     (case birthday r of
        None \<Rightarrow> None
      | Some v \<Rightarrow>
          (case strptime v of Inl e \<Rightarrow> None | Inr parsed \<Rightarrow> reanchor parsed (year today)))"

definition in_window :: "date \<Rightarrow> date \<Rightarrow> bool" where
  "in_window today a = (date_le today a \<and> date_le a (plus_days today 7))"


definition shown_date :: "date \<Rightarrow> date" where
  "shown_date a = (if weekday a = 5 \<or> weekday a = 6 then plus_days a (7 - weekday a) else a)"

definition report :: "date \<Rightarrow> Record \<Rightarrow> (ustring \<times> ustring) option" where
  "report today r =
     (case anchored_date today r of
        None \<Rightarrow> None
      | Some a \<Rightarrow> if in_window today a then Some (name r, strftime (shown_date a)) else None)"

text \<open>
  The invariant of the stored values as the code keeps it: every phone of every record
  is a string of exactly 10 characters that \<open>str.isdigit\<close> accepts, and every birthday
  that is set is a string that \<open>strptime\<close> parses to a date of the calendar.
\<close>

definition phone_ok :: "ustring \<Rightarrow> bool" where
  "phone_ok s = (length s = 10 \<and> list_all isdigit_cp s)"

definition birthday_ok :: "ustring \<Rightarrow> bool" where
  "birthday_ok s = (case strptime s of Inl e \<Rightarrow> False | Inr d \<Rightarrow> valid_date d)"

definition record_ok :: "Record \<Rightarrow> bool" where
  "record_ok r =
     (list_all phone_ok (phones r)
      \<and> (case birthday r of None \<Rightarrow> True | Some b \<Rightarrow> birthday_ok b))"

definition book_ok :: "AddressBook \<Rightarrow> bool" where
  "book_ok book = list_all (\<lambda>(k, r). record_ok r) book"

text \<open>
  The invariant as the specification words it, with the rule of each variant: every
  phone is ten ASCII digits and every birthday has the form DD.MM.YYYY.
\<close>

definition spec_record_ok :: "Record \<Rightarrow> bool" where
  "spec_record_ok r =
     (list_all spec_phone_rule (phones r)
      \<and> (case birthday r of None \<Rightarrow> True | Some b \<Rightarrow> spec_birthday_rule b))"

section \<open>Command handlers\<close>

text \<open>
  \<open>input_error\<close> turns an IndexError or a ValueError of the handler into the text
  \<open>Error: <message>\<close>; any other exception passes through.
\<close>

definition input_error :: "exn + ustring \<Rightarrow> exn + ustring" where
  "input_error res =
     (case res of
        Inl (ValueError m) \<Rightarrow> Inr (ustr ''Error: '' @ m)
      | Inl (IndexError m) \<Rightarrow> Inr (ustr ''Error: '' @ m)
      | _ \<Rightarrow> res)"

text \<open>\<open>name, phone = args[:2]\<close>.\<close>

definition unpack2 :: "ustring list \<Rightarrow> exn + (ustring \<times> ustring)" where
  "unpack2 xs =
     (case xs of
        [a, b] \<Rightarrow> Inr (a, b)
      | _ \<Rightarrow> Inl (ValueError (ustr ''not enough values to unpack (expected 2, got ''
                     @ digits_of (length xs) @ ustr '')'')))"

text \<open>
  A record that \<open>search\<close> returned is the object that the book holds, so a mutation of
  it is seen through the book: \<open>write_back\<close> puts the mutated record where it stands.
  The handlers never store one record object under two keys.
\<close>

definition write_back :: "ustring \<Rightarrow> Record \<Rightarrow> AddressBook \<Rightarrow> AddressBook" where
  "write_back n record book = map (\<lambda>(k, v). if k = n then (k, record) else (k, v)) book"

text \<open>
  A handler returns its text, or raises, and leaves the book in some state: the pair of
  both. A record object is always true in \<open>if record:\<close>.
\<close>

definition add_contact_body :: "ustring list \<Rightarrow> AddressBook \<Rightarrow> (exn + ustring) \<times> AddressBook" where
  "add_contact_body args book =
     (case unpack2 (take 2 args) of
        Inl e \<Rightarrow> (Inl e, book)
      | Inr (n, phone) \<Rightarrow>
          (case search n book of
             Some record \<Rightarrow>
               (case add_phone phone record of
                  (Inl e, record') \<Rightarrow> (Inl e, write_back n record' book)
                | (Inr _, record') \<Rightarrow>
                    (Inr (ustr ''Phone added to '' @ n @ ustr ''.''), write_back n record' book))
           | None \<Rightarrow>
               (case add_phone phone (Record_init n) of
                  (Inl e, record') \<Rightarrow> (Inl e, book)
                | (Inr _, record') \<Rightarrow>
                    (Inr (ustr ''Contact '' @ n @ ustr '' created.''), add_record record' book))))"

definition add_contact :: "ustring list \<Rightarrow> AddressBook \<Rightarrow> (exn + ustring) \<times> AddressBook" where
  "add_contact args book = (case add_contact_body args book of (res, book') \<Rightarrow> (input_error res, book'))"

definition birthdays_body :: "date \<Rightarrow> AddressBook \<Rightarrow> exn + ustring" where
  "birthdays_body today book =
     (case upcoming_birthdays today book of
        Inl e \<Rightarrow> Inl e
      | Inr upcoming \<Rightarrow>
          if upcoming \<noteq> []
          then Inr (join [10] (map (\<lambda>(n, b). n @ ustr '': '' @ b) upcoming))
          else Inr (ustr ''No upcoming birthdays.''))"

definition birthdays :: "date \<Rightarrow> AddressBook \<Rightarrow> exn + ustring" where
  "birthdays today book = input_error (birthdays_body today book)"

section \<open>Persistence\<close>

text \<open>
  The state of the file \<open>addressbook.pkl\<close> as far as \<open>load_data\<close> can tell: there is no
  file, the file cannot be opened for reading, its contents are not a pickle, or its
  contents are the pickle of a book.
\<close>

datatype store = Absent | Unreadable | Corrupt | Saved AddressBook

definition open_rb :: "store \<Rightarrow> exn + store" where
  "open_rb st =
     (case st of Absent \<Rightarrow> Inl FileNotFoundError | Unreadable \<Rightarrow> Inl PermissionError | _ \<Rightarrow> Inr st)"

definition pickle_load :: "store \<Rightarrow> exn + AddressBook" where
  "pickle_load f = (case f of Saved book \<Rightarrow> Inr book | _ \<Rightarrow> Inl UnpicklingError)"

text \<open>The only handler of \<open>load_data\<close> is the one for FileNotFoundError.\<close>

definition load_data :: "store \<Rightarrow> exn + AddressBook" where
  "load_data st =
     (case (case open_rb st of Inl e \<Rightarrow> Inl e | Inr f \<Rightarrow> pickle_load f) of
        Inl FileNotFoundError \<Rightarrow> Inr []
      | Inl e \<Rightarrow> Inl e
      | Inr book \<Rightarrow> Inr book)"

section \<open>Phone numbers\<close>

lemma Phone_cases:
  "Phone s = (if length s = 10 \<and> list_all isdigit_cp s then Inr s else Inl InvalidPhone)"
  by (auto simp: Phone_def isdigit_def)

lemma isdigit_cp_superscript_two: "isdigit_cp 178"
  by (simp add: isdigit_cp_def other_digit_ranges_def in_range_def)

lemma isdigit_cp_ascii: "in_range 48 57 c \<Longrightarrow> isdigit_cp c"
  by (simp add: isdigit_cp_def isdecimal_cp_def decimal_zeros_def in_run_def in_range_def)

text \<open>
  C3, as stated, fails: the string of ten characters SUPERSCRIPT TWO (U+00B2) is accepted
  and stored, although none of its characters is an ASCII digit.
\<close>

theorem Phone_ascii_counterexample:
  "Phone [178, 178, 178, 178, 178, 178, 178, 178, 178, 178]
     = Inr [178, 178, 178, 178, 178, 178, 178, 178, 178, 178]
   \<and> \<not> spec_phone_rule [178, 178, 178, 178, 178, 178, 178, 178, 178, 178]"
  by (simp add: Phone_cases isdigit_cp_superscript_two spec_phone_rule_def in_range_def)

text \<open>
  C3, amended: construction succeeds and stores \<open>s\<close> verbatim if and only if \<open>s\<close> has
  exactly 10 characters and each of them is a digit in the sense of \<open>str.isdigit\<close>;
  every other string fails with the InvalidPhone error. Every string of ten ASCII digits
  is among the accepted ones.
\<close>

theorem Phone_accepts_iff:
  "(Phone s = Inr s \<longleftrightarrow> length s = 10 \<and> list_all isdigit_cp s)
   \<and> (\<not> (length s = 10 \<and> list_all isdigit_cp s) \<longrightarrow> Phone s = Inl InvalidPhone)
   \<and> (spec_phone_rule s \<longrightarrow> Phone s = Inr s)"
proof -
  have "spec_phone_rule s \<Longrightarrow> list_all isdigit_cp s"
    by (auto simp: spec_phone_rule_def list_all_iff intro: isdigit_cp_ascii)
  then show ?thesis
    by (auto simp: Phone_cases spec_phone_rule_def)
qed

theorem Phone_accepts_iff_witness:
  "Phone [49, 50, 51, 52, 53, 54, 55, 56, 57, 48] = Inr [49, 50, 51, 52, 53, 54, 55, 56, 57, 48]
   \<and> Phone [49, 50, 51] = Inl InvalidPhone"
proof -
  have a: "spec_phone_rule [49, 50, 51, 52, 53, 54, 55, 56, 57, 48]"
    by (simp add: spec_phone_rule_def in_range_def)
  have b: "\<not> (length [49, 50, 51 :: nat] = 10 \<and> list_all isdigit_cp [49, 50, 51])"
    by simp
  show ?thesis
    using Phone_accepts_iff [of "[49, 50, 51, 52, 53, 54, 55, 56, 57, 48]"]
      Phone_accepts_iff [of "[49, 50, 51]"] a b
    by blast
qed

section \<open>The calendar\<close>

lemma next_day_year: "year (next_day d) = year d \<or> next_day d = \<lparr>year = year d + 1, month = 1, day = 1\<rparr>"
  by (simp add: next_day_def)

lemma plus_days_Suc: "plus_days d (Suc n) = next_day (plus_days d n)"
  by (simp add: plus_days_def)

lemma plus_days_0: "plus_days d 0 = d"
  by (simp add: plus_days_def)

lemma plus_days_year_aux:
  "n \<le> 30 \<Longrightarrow> year (plus_days d n) = year d
     \<or> (\<exists>k<n. plus_days d n = \<lparr>year = year d + 1, month = 1, day = 1 + k\<rparr>)"
proof (induction n)
  case 0
  then show ?case by (simp add: plus_days_0)
next
  case (Suc n)
  then have ih: "year (plus_days d n) = year d
     \<or> (\<exists>k<n. plus_days d n = \<lparr>year = year d + 1, month = 1, day = 1 + k\<rparr>)" by simp
  show ?case
  proof (rule disjE [OF ih])
    assume a: "year (plus_days d n) = year d"
    show ?thesis
      using next_day_year [of "plus_days d n"] a by (auto simp: plus_days_Suc)
  next
    assume "\<exists>k<n. plus_days d n = \<lparr>year = year d + 1, month = 1, day = 1 + k\<rparr>"
    then obtain k where k: "k < n" "plus_days d n = \<lparr>year = year d + 1, month = 1, day = 1 + k\<rparr>"
      by blast
    have "plus_days d (Suc n) = \<lparr>year = year d + 1, month = 1, day = 1 + Suc k\<rparr>"
      using k Suc.prems by (simp add: plus_days_Suc next_day_def days_in_month_def)
    then show ?thesis using k by auto
  qed
qed

lemma plus_days_year_le: "n \<le> 30 \<Longrightarrow> year (plus_days d n) \<le> year d + 1"
  using plus_days_year_aux [of n d] by auto

lemma date_add_ok: "year d < 9999 \<Longrightarrow> n \<le> 30 \<Longrightarrow> date_add d n = Inr (plus_days d n)"
  using plus_days_year_le [of n d] by (simp add: date_add_def Let_def)

lemma date_add_Inr: "date_add d n = Inr r \<Longrightarrow> r = plus_days d n"
  by (simp add: date_add_def Let_def split: if_splits)

lemma div_100_le_div_4: "(k::nat) div 100 \<le> k div 4"
  by (rule div_le_mono2) simp_all

lemma mod_400_100: "(n::nat) mod 400 = 0 \<Longrightarrow> n mod 100 = 0"
  by presburger

lemma mod_100_4: "(n::nat) mod 100 = 0 \<Longrightarrow> n mod 4 = 0"
  by presburger

lemma days_before_year_alt:
  "days_before_year y + (y - 1) div 100 = (y - 1) * 365 + (y - 1) div 4 + (y - 1) div 400"
  using div_100_le_div_4 [of "y - 1"] by (simp add: days_before_year_def)

lemma days_before_year_Suc:
  "1 \<le> y \<Longrightarrow> days_before_year (Suc y) = days_before_year y + (if is_leap y then 366 else 365)"
proof -
  assume "1 \<le> y"
  then obtain k where y: "y = Suc k" by (cases y) auto
  have "days_before_year (Suc y) + y div 100
        = days_before_year y + (if is_leap y then 366 else 365) + y div 100"
    using days_before_year_alt [of "Suc y"] days_before_year_alt [of y]
      mod_400_100 [of "Suc k"] mod_100_4 [of "Suc k"]
    by (auto simp: y is_leap_def div_Suc)
  then show ?thesis by simp
qed

lemma next_day_calendar: "calendar_date d \<Longrightarrow> calendar_date (next_day d)"
  by (auto simp: calendar_date_def next_day_def days_in_month_def)

lemma days_before_month_Suc:
  "1 \<le> m \<Longrightarrow> m < 12 \<Longrightarrow> days_before_month y (Suc m) = days_before_month y m + days_in_month y m"
proof -
  assume "1 \<le> m" "m < 12"
  then have "m \<in> {1,2,3,4,5,6,7,8,9,10,11}" by (simp; arith)
  then show ?thesis
    by (auto simp: days_before_month_def days_in_month_def)
qed

lemma days_before_month_12: "days_before_month y 12 = (if is_leap y then 335 else 334)"
  by (simp add: days_before_month_def)

lemma days_before_month_1: "days_before_month y (Suc 0) = 0"
  by (simp add: days_before_month_def)

lemma toordinal_next_day: "calendar_date d \<Longrightarrow> toordinal (next_day d) = toordinal d + 1"
proof -
  assume c: "calendar_date d"
  show ?thesis
  proof (cases "day d < days_in_month (year d) (month d)")
    case True
    then show ?thesis by (simp add: next_day_def toordinal_def)
  next
    case False
    with c have dd: "day d = days_in_month (year d) (month d)" by (simp add: calendar_date_def)
    show ?thesis
    proof (cases "month d < 12")
      case True
      then show ?thesis
        using c dd days_before_month_Suc [of "month d" "year d"]
        by (simp add: next_day_def toordinal_def calendar_date_def)
    next
      case False
      with c have m: "month d = 12" by (simp add: calendar_date_def)
      have y: "1 \<le> year d" using c by (simp add: calendar_date_def)
      have "day d = 31" using dd m by (simp add: days_in_month_def)
      then show ?thesis
        using m days_before_year_Suc [OF y]
        by (simp add: next_day_def toordinal_def days_before_month_1 days_before_month_12
            days_in_month_def)
    qed
  qed
qed

lemma plus_days_calendar: "calendar_date d \<Longrightarrow> calendar_date (plus_days d n)"
  by (induction n) (simp_all add: plus_days_0 plus_days_Suc next_day_calendar)

lemma toordinal_plus_days: "calendar_date d \<Longrightarrow> toordinal (plus_days d n) = toordinal d + n"
  by (induction n) (simp_all add: plus_days_0 plus_days_Suc toordinal_next_day plus_days_calendar)

lemma weekday_plus_days: "calendar_date d \<Longrightarrow> weekday (plus_days d n) = (weekday d + n) mod 7"
  unfolding weekday_def by (simp add: toordinal_plus_days) presburger

lemma weekday_lt_7: "weekday d < 7"
  by (simp add: weekday_def)

lemma shown_date_monday:
  "calendar_date a \<Longrightarrow> weekday a = 5 \<or> weekday a = 6 \<Longrightarrow> weekday (shown_date a) = 0"
  by (auto simp: shown_date_def weekday_plus_days)










section \<open>The birthday query\<close>

lemma new_date_Inr: "new_date y m d = Inr a \<Longrightarrow> a = \<lparr>year = y, month = m, day = d\<rparr> \<and> valid_date a"
  by (auto simp: new_date_def valid_date_def calendar_date_def split: if_splits)

lemma new_date_Inl: "new_date y m d = Inl e \<Longrightarrow> \<exists>msg. e = ValueError msg"
  by (auto simp: new_date_def split: if_splits)

lemma replace_year_Inr: "replace_year p y = Inr a \<Longrightarrow> year a = y \<and> valid_date a"
  using new_date_Inr [of y "month p" "day p" a] by (auto simp: replace_year_def)

lemma replace_year_Inl: "replace_year p y = Inl e \<Longrightarrow> \<exists>msg. e = ValueError msg"
  using new_date_Inl [of y "month p" "day p" e] by (simp add: replace_year_def)

lemma strptime_Inl: "strptime v = Inl e \<Longrightarrow> \<exists>msg. e = ValueError msg"
  unfolding strptime_def
  by (cases "regex_matches v") (auto split: prod.splits if_splits dest: new_date_Inl)

lemma weekday_ge_5: "5 \<le> weekday a \<longleftrightarrow> weekday a = 5 \<or> weekday a = 6"
  using weekday_lt_7 [of a] by arith

lemma new_date_iff:
  "new_date y m d = Inr a \<longleftrightarrow> a = \<lparr>year = y, month = m, day = d\<rparr> \<and> valid_date a"
  by (auto simp: new_date_def valid_date_def calendar_date_def)

lemma reanchor_Some: "replace_year p y = Inr a \<Longrightarrow> reanchor p y = Some a"
  by (auto simp: replace_year_def reanchor_def new_date_iff)

lemma reanchor_None: "replace_year p y = Inl e \<Longrightarrow> reanchor p y = None"
proof -
  assume e: "replace_year p y = Inl e"
  have "\<not> valid_date \<lparr>year = y, month = month p, day = day p\<rparr>"
  proof
    assume "valid_date \<lparr>year = y, month = month p, day = day p\<rparr>"
    then have "replace_year p y = Inr \<lparr>year = y, month = month p, day = day p\<rparr>"
      by (simp add: replace_year_def new_date_iff)
    with e show False by simp
  qed
  then show ?thesis by (simp add: reanchor_def)
qed

lemma anchored_date_cases:
  obtains (unset) "birthday r = None" "anchored_date today r = None"
  | (unparsed) v e where "birthday r = Some v" "strptime v = Inl e" "anchored_date today r = None"
  | (unanchored) v p e where "birthday r = Some v" "strptime v = Inr p"
      "replace_year p (year today) = Inl e" "anchored_date today r = None"
  | (anchored) v p a where "birthday r = Some v" "strptime v = Inr p"
      "replace_year p (year today) = Inr a" "anchored_date today r = Some a"
proof (cases "birthday r")
  case None
  then show ?thesis using unset by (simp add: anchored_date_def)
next
  case (Some v)
  show ?thesis
  proof (cases "strptime v")
    case (Inl e)
    then show ?thesis using Some unparsed by (simp add: anchored_date_def)
  next
    case (Inr p)
    show ?thesis
    proof (cases "replace_year p (year today)")
      case (Inl e)
      then show ?thesis using Some Inr unanchored reanchor_None [OF Inl]
        by (simp add: anchored_date_def)
    next
      case (Inr a)
      then show ?thesis using Some \<open>strptime v = Inr p\<close> anchored reanchor_Some [OF Inr]
        by (simp add: anchored_date_def)
    qed
  qed
qed

lemma birthday_round_anchored:
  "birthday r = Some v \<Longrightarrow> strptime v = Inr p \<Longrightarrow> replace_year p (year today) = Inr a \<Longrightarrow>
   birthday_round today result r =
     (if date_le today a
      then (case date_add today 7 of
              Inl e \<Rightarrow> Inl e
            | Inr limit \<Rightarrow>
                if date_le a limit
                then (case (if 5 \<le> weekday a then date_add a (7 - weekday a) else Inr a) of
                        Inl e \<Rightarrow> Inl e
                      | Inr shown \<Rightarrow> Inr (result @ [(name r, strftime shown)]))
                else Inr result)
      else Inr result)"
  by (simp add: birthday_round_def)

lemma birthday_round_Inr:
  assumes "birthday_round today result r = Inr result'"
  shows "result' = result @ (case report today r of None \<Rightarrow> [] | Some item \<Rightarrow> [item])"
proof (cases rule: anchored_date_cases [of r today])
  case unset
  then show ?thesis using assms by (simp add: birthday_round_def report_def)
next
  case (unparsed v e)
  then show ?thesis using assms by (simp add: birthday_round_def)
next
  case (unanchored v p e)
  then show ?thesis using assms by (simp add: birthday_round_def)
next
  case (anchored v p a)
  note eq = birthday_round_anchored [OF anchored(1-3), of result]
  show ?thesis
  proof (cases "date_le today a")
    case False
    then show ?thesis using assms eq anchored(4) by (simp add: report_def in_window_def)
  next
    case True
    with assms eq obtain limit where limit: "date_add today 7 = Inr limit"
      by (cases "date_add today 7") auto
    then have l: "limit = plus_days today 7" by (rule date_add_Inr)
    show ?thesis
    proof (cases "date_le a limit")
      case False
      then show ?thesis using assms eq anchored(4) True limit l
        by (simp add: report_def in_window_def)
    next
      case le: True
      show ?thesis
      proof (cases "5 \<le> weekday a")
        case False
        then have "shown_date a = a" using weekday_ge_5 [of a] by (simp add: shown_date_def)
        then show ?thesis using assms eq anchored(4) True limit l le False
          by (simp add: report_def in_window_def)
      next
        case wk: True
        with assms eq True limit le obtain shown where
          shown: "date_add a (7 - weekday a) = Inr shown"
          by (cases "date_add a (7 - weekday a)") auto
        have "shown = shown_date a"
          using date_add_Inr [OF shown] wk weekday_ge_5 [of a] by (simp add: shown_date_def)
        then show ?thesis using assms eq anchored(4) True limit l le wk shown
          by (simp add: report_def in_window_def)
      qed
    qed
  qed
qed

lemma upcoming_loop_Inr:
  "upcoming_loop today result rs = Inr out \<Longrightarrow> out = result @ List.map_filter (report today) rs"
proof (induction rs arbitrary: result)
  case Nil
  then show ?case by (simp add: map_filter_simps)
next
  case (Cons r rs)
  from Cons.prems obtain mid where
    mid: "birthday_round today result r = Inr mid" and rest: "upcoming_loop today mid rs = Inr out"
    by (cases "birthday_round today result r") auto
  show ?case
    using Cons.IH [OF rest] birthday_round_Inr [OF mid]
    by (cases "report today r") (simp_all add: map_filter_simps)
qed




lemma birthday_round_ValueError:
  assumes y: "year today < 9999" and e: "birthday_round today result r = Inl e"
  shows "\<exists>msg. e = ValueError msg"
proof (cases rule: anchored_date_cases [of r today])
  case unset
  then show ?thesis using e by (simp add: birthday_round_def)
next
  case (unparsed v e')
  then show ?thesis using e strptime_Inl [of v e'] by (simp add: birthday_round_def)
next
  case (unanchored v p e')
  then show ?thesis using e replace_year_Inl [of p "year today" e'] by (simp add: birthday_round_def)
next
  case (anchored v p a)
  have ya: "year a < 9999" using replace_year_Inr [OF anchored(3)] y by simp
  have "7 - weekday a \<le> 30" by simp
  then show ?thesis
    using e birthday_round_anchored [OF anchored(1-3), of result]
      date_add_ok [OF y, of 7] date_add_ok [OF ya, of "7 - weekday a"]
    by (simp split: if_splits)
qed



lemma upcoming_loop_ValueError:
  "year today < 9999 \<Longrightarrow> upcoming_loop today result rs = Inl e \<Longrightarrow> \<exists>msg. e = ValueError msg"
proof (induction rs arbitrary: result)
  case Nil
  then show ?case by simp
next
  case (Cons r rs)
  show ?case
  proof (cases "birthday_round today result r")
    case (Inl e')
    then show ?thesis using Cons.prems birthday_round_ValueError [of today result r e'] by simp
  next
    case (Inr mid)
    then show ?thesis using Cons.prems Cons.IH [of mid] by simp
  qed
qed

lemma birthday_round_feb29:
  "\<not> is_leap (year today) \<Longrightarrow> birthday r = Some v \<Longrightarrow> strptime v = Inr p \<Longrightarrow>
   month p = 2 \<Longrightarrow> day p = 29 \<Longrightarrow> \<exists>e. birthday_round today result r = Inl e"
  by (simp add: birthday_round_def replace_year_def new_date_def days_in_month_def)

lemma upcoming_loop_raises:
  "r \<in> set rs \<Longrightarrow> (\<And>result. \<exists>e. birthday_round today result r = Inl e) \<Longrightarrow>
   \<exists>e. upcoming_loop today result rs = Inl e"
proof (induction rs arbitrary: result)
  case Nil
  then show ?case by simp
next
  case (Cons x rs)
  show ?case
  proof (cases "birthday_round today result x")
    case (Inl e)
    then show ?thesis by simp
  next
    case (Inr mid)
    from Cons.prems(2) [of result] Inr have "x \<noteq> r" by auto
    with Cons.prems have "r \<in> set rs" by auto
    from Cons.IH [OF this Cons.prems(2), of mid] Inr show ?thesis by simp
  qed
qed

subsection \<open>Evaluation on concrete inputs\<close>

lemma ustr_Nil: "ustr [] = []"
  by (simp add: ustr_def)

lemma ustr_Cons: "ustr (c # cs) = of_char c # ustr cs"
  by (simp add: ustr_def)

lemmas regex_defs = regex_matches_def re_d_def re_m_def re_Y_def re_dot_def alt1_def alt2_def
  in_range_def isdecimal_cp_def decimal_zeros_def in_run_def

lemmas strptime_eval = strptime_def regex_defs py_int_def digit_value_def new_date_def
  days_in_month_def is_leap_def ustr_Nil ustr_Cons

lemma plus_days_1: "plus_days d 1 = next_day d"
  by (simp add: plus_days_def)

lemma plus_days_2: "plus_days d 2 = next_day (next_day d)"
  by (simp add: plus_days_def numeral_2_eq_2)

lemma plus_days_7:
  "plus_days d 7 = next_day (next_day (next_day (next_day (next_day (next_day (next_day d))))))"
  by (simp add: plus_days_def eval_nat_numeral)

lemmas date_eval = date_add_def plus_days_1 plus_days_2 plus_days_7 next_day_def date_le_def
  weekday_def toordinal_def days_before_year_def days_before_month_def strftime_def pad2_def
  digits_of.simps replace_year_def

lemmas query_eval = upcoming_birthdays_def values_of_def birthday_round_def strptime_eval date_eval







lemma report_Some:
  "report today r = Some item \<Longrightarrow>
   \<exists>a. anchored_date today r = Some a \<and> in_window today a \<and> item = (name r, strftime (shown_date a))"
  by (cases "anchored_date today r") (auto simp: report_def split: if_splits)

text \<open>
  C2: when \<open>upcoming_birthdays\<close> returns, its items are, in the order of the book, the
  reports of the records that have one; the report of an included record pairs its name
  with the shown date formatted by \<open>strftime\<close>. If the anchored date falls on a
  Saturday or a Sunday (weekday 5 or 6, Monday being 0) the shown date is the anchored
  date plus \<open>7 - weekday\<close> days, which is a Monday, and nothing checks that it still
  lies in the window; otherwise the shown date is the anchored date itself.
\<close>

theorem upcoming_birthdays_shift:
  "(upcoming_birthdays today book = Inr res \<longrightarrow>
      res = List.map_filter (report today) (values_of book))
   \<and> (report today r = Some item \<longrightarrow>
      (\<exists>a. anchored_date today r = Some a \<and> in_window today a
           \<and> item = (name r, strftime (shown_date a))))
   \<and> (calendar_date a \<and> (weekday a = 5 \<or> weekday a = 6) \<longrightarrow>
      shown_date a = plus_days a (7 - weekday a) \<and> weekday (shown_date a) = 0)
   \<and> (weekday a < 5 \<longrightarrow> shown_date a = a)"
proof -
  have 1: "upcoming_birthdays today book = Inr res \<Longrightarrow>
      res = List.map_filter (report today) (values_of book)"
    using upcoming_loop_Inr [of today "[]" "values_of book" res]
    by (simp add: upcoming_birthdays_def)
  have 2: "calendar_date a \<and> (weekday a = 5 \<or> weekday a = 6) \<Longrightarrow>
      shown_date a = plus_days a (7 - weekday a) \<and> weekday (shown_date a) = 0"
    using shown_date_monday [of a] by (auto simp: shown_date_def)
  have 3: "weekday a < 5 \<Longrightarrow> shown_date a = a"
    by (simp add: shown_date_def)
  show ?thesis using 1 2 3 report_Some [of today r item] by blast
qed

theorem upcoming_birthdays_shift_witness:
  "upcoming_birthdays \<lparr>year = 2024, month = 5, day = 11\<rparr>
     [(ustr ''Ann'', \<lparr>name = ustr ''Ann'', phones = [], birthday = Some (ustr ''18.05.1990'')\<rparr>),
      (ustr ''Bob'', \<lparr>name = ustr ''Bob'', phones = [], birthday = Some (ustr ''15.05.1985'')\<rparr>)]
     = Inr [(ustr ''Ann'', ustr ''20.05.2024''), (ustr ''Bob'', ustr ''15.05.2024'')]
   \<and> List.map_filter (report \<lparr>year = 2024, month = 5, day = 11\<rparr>) (values_of
     [(ustr ''Ann'', \<lparr>name = ustr ''Ann'', phones = [], birthday = Some (ustr ''18.05.1990'')\<rparr>),
      (ustr ''Bob'', \<lparr>name = ustr ''Bob'', phones = [], birthday = Some (ustr ''15.05.1985'')\<rparr>)])
     = [(ustr ''Ann'', ustr ''20.05.2024''), (ustr ''Bob'', ustr ''15.05.2024'')]
   \<and> weekday \<lparr>year = 2024, month = 5, day = 18\<rparr> = 5
   \<and> shown_date \<lparr>year = 2024, month = 5, day = 18\<rparr> = \<lparr>year = 2024, month = 5, day = 20\<rparr>
   \<and> weekday (shown_date \<lparr>year = 2024, month = 5, day = 18\<rparr>) = 0
   \<and> \<not> date_le \<lparr>year = 2024, month = 5, day = 20\<rparr> (plus_days \<lparr>year = 2024, month = 5, day = 11\<rparr> 7)
   \<and> weekday \<lparr>year = 2024, month = 5, day = 15\<rparr> = 2
   \<and> shown_date \<lparr>year = 2024, month = 5, day = 15\<rparr> = \<lparr>year = 2024, month = 5, day = 15\<rparr>"
  (is "upcoming_birthdays ?T ?B = Inr ?res \<and> ?spec = _ \<and> ?w5 \<and> ?sh \<and> ?mon \<and> ?out \<and> ?w2 \<and> ?same")
proof -
  have e: "upcoming_birthdays ?T ?B = Inr ?res"
    by (simp add: query_eval)
  have s: "?spec = ?res"
    using upcoming_birthdays_shift [of ?T ?B ?res] e by simp
  have w5: ?w5 by (simp add: date_eval is_leap_def)
  have c: "calendar_date \<lparr>year = 2024, month = 5, day = 18\<rparr>"
    by (simp add: calendar_date_def days_in_month_def)
  have m: "shown_date \<lparr>year = 2024, month = 5, day = 18\<rparr>
             = plus_days \<lparr>year = 2024, month = 5, day = 18\<rparr> (7 - weekday \<lparr>year = 2024, month = 5, day = 18\<rparr>)
           \<and> ?mon"
    using upcoming_birthdays_shift [of _ _ _ _ _ "\<lparr>year = 2024, month = 5, day = 18\<rparr>"] c w5
    by blast
  have sh: ?sh using m w5 by (simp add: plus_days_2 next_day_def days_in_month_def)
  have out: ?out by (simp add: date_eval days_in_month_def)
  have w2: ?w2 by (simp add: date_eval is_leap_def)
  have same: ?same
    using upcoming_birthdays_shift [of _ _ _ _ _ "\<lparr>year = 2024, month = 5, day = 15\<rparr>"] w2
    by simp
  from e s w5 sh m out w2 same show ?thesis by blast
qed

text \<open>
  C9: \<open>upcoming_birthdays\<close> is not total on valid states. If today's year is not a leap
  year (and is before 9999) and some record of the book has a birthday that parses to
  29 February, the call raises a ValueError instead of returning a list, and the
  \<open>birthdays\<close> handler answers with the text \<open>Error: \<close> followed by the message.
\<close>

theorem upcoming_birthdays_feb29_raises:
  assumes "year today < 9999" and "\<not> is_leap (year today)" and "(k, r) \<in> set book"
    and "birthday r = Some v" and "strptime v = Inr p" and "month p = 2" and "day p = 29"
  shows "\<exists>msg. upcoming_birthdays today book = Inl (ValueError msg)
               \<and> birthdays today book = Inr (ustr ''Error: '' @ msg)"
proof -
  have r: "r \<in> set (values_of book)"
    using assms(3) by (force simp: values_of_def)
  have "\<And>result. \<exists>e. birthday_round today result r = Inl e"
    using assms by (rule_tac birthday_round_feb29) auto
  with r obtain e where e: "upcoming_loop today [] (values_of book) = Inl e"
    using upcoming_loop_raises [of r "values_of book" today "[]"] by blast
  then obtain msg where "e = ValueError msg"
    using upcoming_loop_ValueError [OF assms(1)] by blast
  with e show ?thesis
    by (simp add: upcoming_birthdays_def birthdays_def birthdays_body_def input_error_def)
qed

theorem upcoming_birthdays_feb29_raises_witness:
  "Birthday (ustr ''29.02.2024'') = Inr (ustr ''29.02.2024'')
   \<and> upcoming_birthdays \<lparr>year = 2023, month = 3, day = 1\<rparr>
       [(ustr ''Ann'', \<lparr>name = ustr ''Ann'', phones = [], birthday = Some (ustr ''29.02.2024'')\<rparr>)]
     = Inl (ValueError (ustr ''day is out of range for month''))
   \<and> birthdays \<lparr>year = 2023, month = 3, day = 1\<rparr>
       [(ustr ''Ann'', \<lparr>name = ustr ''Ann'', phones = [], birthday = Some (ustr ''29.02.2024'')\<rparr>)]
     = Inr (ustr ''Error: day is out of range for month'')"
  (is "?b \<and> ?run = _ \<and> ?cmd = _")
proof -
  have p: "strptime (ustr ''29.02.2024'') = Inr \<lparr>year = 2024, month = 2, day = 29\<rparr>"
    by (simp add: strptime_eval)
  have b: ?b by (simp add: Birthday_def p)
  have e: "?run = Inl (ValueError (ustr ''day is out of range for month''))"
    by (simp add: query_eval)
  have l: "\<not> is_leap (year \<lparr>year = 2023, month = 3, day = 1\<rparr>)"
    by (simp add: is_leap_def)
  have y: "year \<lparr>year = 2023, month = 3, day = 1\<rparr> < 9999"
    by simp
  have i: "(ustr ''Ann'', \<lparr>name = ustr ''Ann'', phones = [], birthday = Some (ustr ''29.02.2024'')\<rparr>)
             \<in> set [(ustr ''Ann'', \<lparr>name = ustr ''Ann'', phones = [], birthday = Some (ustr ''29.02.2024'')\<rparr>)]"
    by simp
  have v: "birthday \<lparr>name = ustr ''Ann'', phones = [], birthday = Some (ustr ''29.02.2024'')\<rparr>
             = Some (ustr ''29.02.2024'')"
    by simp
  have md: "month \<lparr>year = 2024, month = 2, day = 29\<rparr> = 2" "day \<lparr>year = 2024, month = 2, day = 29\<rparr> = 29"
    by simp_all
  obtain msg where m: "?run = Inl (ValueError msg)" "?cmd = Inr (ustr ''Error: '' @ msg)"
    using upcoming_birthdays_feb29_raises [OF y l i v p md] by blast
  from m(1) e have "msg = ustr ''day is out of range for month''" by simp
  with m(2) have c: "?cmd = Inr (ustr ''Error: day is out of range for month'')"
    by (simp add: ustr_def)
  from b e c show ?thesis by blast
qed

section \<open>Records\<close>

lemma update_phone_loop_absent:
  "old_phone \<notin> set rest \<Longrightarrow>
   update_phone_loop old_phone new_phone ps idx rest = (Inl (PhoneNotFound old_phone), ps)"
  by (induction rest arbitrary: idx) auto

lemma update_phone_loop_first:
  "old_phone \<notin> set pre \<Longrightarrow>
   update_phone_loop old_phone new_phone ps idx (pre @ old_phone # post) =
     (case Phone new_phone of
        Inl e \<Rightarrow> (Inl e, ps)
      | Inr v \<Rightarrow> (Inr True, ps[idx + length pre := v]))"
  by (induction pre arbitrary: idx) (auto split: sum.splits)

lemma Phone_Inl: "Phone s = Inl e \<Longrightarrow> e = InvalidPhone"
  by (simp add: Phone_def split: if_splits)

lemma Phone_Inr: "Phone s = Inr v \<Longrightarrow> v = s"
  by (simp add: Phone_def split: if_splits)

text \<open>
  C5: \<open>update_phone(old, new)\<close>. If no phone of the record equals \<open>old\<close> the call
  fails with PhoneNotFound(old) and the record is as before. Otherwise, with the first
  phone equal to \<open>old\<close> at the end of \<open>pre\<close>: if \<open>new\<close> is a valid phone the call
  returns \<open>True\<close> and exactly that entry is replaced by \<open>new\<close>, later entries equal
  to \<open>old\<close> staying in \<open>post\<close>; if \<open>new\<close> is not a valid phone the call fails with
  InvalidPhone and the record is as before.
\<close>

theorem update_phone_first_match:
  "(old_phone \<notin> set (phones r) \<longrightarrow>
      update_phone old_phone new_phone r = (Inl (PhoneNotFound old_phone), r))
   \<and> (phones r = pre @ old_phone # post \<and> old_phone \<notin> set pre \<longrightarrow>
        (Phone new_phone = Inr new_phone \<longrightarrow>
           update_phone old_phone new_phone r = (Inr True, r\<lparr>phones := pre @ new_phone # post\<rparr>))
      \<and> (Phone new_phone \<noteq> Inr new_phone \<longrightarrow>
           update_phone old_phone new_phone r = (Inl InvalidPhone, r)))"
proof -
  have 1: "old_phone \<notin> set (phones r) \<Longrightarrow>
      update_phone old_phone new_phone r = (Inl (PhoneNotFound old_phone), r)"
    by (simp add: update_phone_def update_phone_loop_absent)
  have 2: "update_phone old_phone new_phone r = (Inr True, r\<lparr>phones := pre @ new_phone # post\<rparr>)"
    if "phones r = pre @ old_phone # post" "old_phone \<notin> set pre" "Phone new_phone = Inr new_phone"
    using that update_phone_loop_first [of old_phone pre new_phone "phones r" 0 post]
    by (simp add: update_phone_def)
  have 3: "update_phone old_phone new_phone r = (Inl InvalidPhone, r)"
    if "phones r = pre @ old_phone # post" "old_phone \<notin> set pre" "Phone new_phone \<noteq> Inr new_phone"
  proof (cases "Phone new_phone")
    case (Inl e)
    then show ?thesis
      using that update_phone_loop_first [of old_phone pre new_phone "phones r" 0 post] Phone_Inl [OF Inl]
      by (simp add: update_phone_def)
  next
    case (Inr v)
    then show ?thesis using that Phone_Inr [OF Inr] by simp
  qed
  show ?thesis using 1 2 3 by blast
qed

lemma Phone_digits: "length s = 10 \<Longrightarrow> list_all (in_range 48 57) s \<Longrightarrow> Phone s = Inr s"
  by (simp add: Phone_cases list_all_iff isdigit_cp_ascii)

lemma Phone_example: "Phone (ustr ''1234567890'') = Inr (ustr ''1234567890'')"
  by (rule Phone_digits) (simp_all add: ustr_Nil ustr_Cons in_range_def)

lemma Phone_too_short: "Phone (ustr ''12345'') \<noteq> Inr (ustr ''12345'')"
  by (simp add: Phone_cases ustr_Nil ustr_Cons)

theorem update_phone_first_match_witness:
  "update_phone (ustr ''1234567890'') (ustr ''0987654321'')
     \<lparr>name = ustr ''Alice'',
      phones = [ustr ''5555555555'', ustr ''1234567890'', ustr ''1234567890''], birthday = None\<rparr>
   = (Inr True, \<lparr>name = ustr ''Alice'',
      phones = [ustr ''5555555555'', ustr ''0987654321'', ustr ''1234567890''], birthday = None\<rparr>)
   \<and> update_phone (ustr ''1111111111'') (ustr ''0987654321'')
     \<lparr>name = ustr ''Alice'', phones = [ustr ''5555555555'', ustr ''1234567890''], birthday = None\<rparr>
   = (Inl (PhoneNotFound (ustr ''1111111111'')),
      \<lparr>name = ustr ''Alice'', phones = [ustr ''5555555555'', ustr ''1234567890''], birthday = None\<rparr>)
   \<and> update_phone (ustr ''1234567890'') (ustr ''12345'')
     \<lparr>name = ustr ''Alice'', phones = [ustr ''5555555555'', ustr ''1234567890''], birthday = None\<rparr>
   = (Inl InvalidPhone,
      \<lparr>name = ustr ''Alice'', phones = [ustr ''5555555555'', ustr ''1234567890''], birthday = None\<rparr>)"
proof -
  have n: "Phone (ustr ''0987654321'') = Inr (ustr ''0987654321'')"
    by (rule Phone_digits) (simp_all add: ustr_Nil ustr_Cons in_range_def)
  have a: "update_phone (ustr ''1234567890'') (ustr ''0987654321'')
     \<lparr>name = ustr ''Alice'',
      phones = [ustr ''5555555555'', ustr ''1234567890'', ustr ''1234567890''], birthday = None\<rparr>
   = (Inr True, \<lparr>name = ustr ''Alice'',
      phones = [ustr ''5555555555'', ustr ''0987654321'', ustr ''1234567890''], birthday = None\<rparr>)"
    using update_phone_first_match [of "ustr ''1234567890''"
        "\<lparr>name = ustr ''Alice'',
          phones = [ustr ''5555555555'', ustr ''1234567890'', ustr ''1234567890''], birthday = None\<rparr>"
        "ustr ''0987654321''" "[ustr ''5555555555'']" "[ustr ''1234567890'']"] n
    by (simp add: ustr_Nil ustr_Cons)
  have b: "update_phone (ustr ''1111111111'') (ustr ''0987654321'')
     \<lparr>name = ustr ''Alice'', phones = [ustr ''5555555555'', ustr ''1234567890''], birthday = None\<rparr>
   = (Inl (PhoneNotFound (ustr ''1111111111'')),
      \<lparr>name = ustr ''Alice'', phones = [ustr ''5555555555'', ustr ''1234567890''], birthday = None\<rparr>)"
    using update_phone_first_match [of "ustr ''1111111111''"
        "\<lparr>name = ustr ''Alice'', phones = [ustr ''5555555555'', ustr ''1234567890''], birthday = None\<rparr>"
        "ustr ''0987654321''"]
    by (simp add: ustr_Nil ustr_Cons)
  have c: "update_phone (ustr ''1234567890'') (ustr ''12345'')
     \<lparr>name = ustr ''Alice'', phones = [ustr ''5555555555'', ustr ''1234567890''], birthday = None\<rparr>
   = (Inl InvalidPhone,
      \<lparr>name = ustr ''Alice'', phones = [ustr ''5555555555'', ustr ''1234567890''], birthday = None\<rparr>)"
    using update_phone_first_match [of "ustr ''1234567890''"
        "\<lparr>name = ustr ''Alice'', phones = [ustr ''5555555555'', ustr ''1234567890''], birthday = None\<rparr>"
        "ustr ''12345''" "[ustr ''5555555555'']" "[]"] Phone_too_short
    by (simp add: ustr_Nil ustr_Cons)
  from a b c show ?thesis by blast
qed

lemma dict_set_get: "map_of (dict_set k v b) k = Some v"
  by (induction b) auto

lemma dict_set_other: "k' \<noteq> k \<Longrightarrow> map_of (dict_set k v b) k' = map_of b k'"
  by (induction b) auto

lemma dict_set_keys:
  "map fst (dict_set k v b) = (if map_of b k = None then map fst b @ [k] else map fst b)"
  by (induction b) auto

lemma dict_set_distinct: "distinct (map fst b) \<Longrightarrow> distinct (map fst (dict_set k v b))"
  by (simp add: dict_set_keys map_of_eq_None_iff)

lemma filter_key_absent: "k \<notin> fst ` set b \<Longrightarrow> filter (\<lambda>(k', v). k' = k) b = []"
  by (induction b) auto

lemma dict_set_entries:
  "distinct (map fst b) \<Longrightarrow> filter (\<lambda>(k', v'). k' = k) (dict_set k v b) = [(k, v)]"
  by (induction b) (auto simp: filter_key_absent)

section \<open>The book\<close>

text \<open>
  C6: in a book (a dictionary: its keys are distinct), after \<open>add_record(r)\<close> the name
  of \<open>r\<close> maps to \<open>r\<close>, the book has exactly one entry under that name, every other
  name maps to what it mapped to before, and the keys are still distinct. Adding a second
  record \<open>r2\<close> of the same name overwrites: the name maps to \<open>r2\<close>, there is still
  exactly one entry under it, the keys are those after the first call, and the other
  names are untouched.
\<close>

theorem add_record_last_write_wins:
  "distinct (map fst book) \<longrightarrow>
     search (name r) (add_record r book) = Some r
     \<and> filter (\<lambda>(k, v). k = name r) (add_record r book) = [(name r, r)]
     \<and> (\<forall>k. k \<noteq> name r \<longrightarrow> search k (add_record r book) = search k book)
     \<and> distinct (map fst (add_record r book))
     \<and> (name r2 = name r \<longrightarrow>
          search (name r) (add_record r2 (add_record r book)) = Some r2
          \<and> filter (\<lambda>(k, v). k = name r) (add_record r2 (add_record r book)) = [(name r, r2)]
          \<and> map fst (add_record r2 (add_record r book)) = map fst (add_record r book)
          \<and> (\<forall>k. k \<noteq> name r \<longrightarrow> search k (add_record r2 (add_record r book)) = search k book))"
proof
  assume d: "distinct (map fst book)"
  have d': "distinct (map fst (add_record r book))"
    using d by (simp add: add_record_def dict_set_distinct)
  show "search (name r) (add_record r book) = Some r
     \<and> filter (\<lambda>(k, v). k = name r) (add_record r book) = [(name r, r)]
     \<and> (\<forall>k. k \<noteq> name r \<longrightarrow> search k (add_record r book) = search k book)
     \<and> distinct (map fst (add_record r book))
     \<and> (name r2 = name r \<longrightarrow>
          search (name r) (add_record r2 (add_record r book)) = Some r2
          \<and> filter (\<lambda>(k, v). k = name r) (add_record r2 (add_record r book)) = [(name r, r2)]
          \<and> map fst (add_record r2 (add_record r book)) = map fst (add_record r book)
          \<and> (\<forall>k. k \<noteq> name r \<longrightarrow> search k (add_record r2 (add_record r book)) = search k book))"
    using d d' dict_set_entries [of book "name r" r]
      dict_set_entries [of "dict_set (name r) r book" "name r" r2]
    by (simp add: search_def add_record_def dict_set_get dict_set_other dict_set_keys [of "name r" r2])
qed

theorem add_record_last_write_wins_witness:
  "search (ustr ''Bob'')
     (add_record \<lparr>name = ustr ''Bob'', phones = [ustr ''0987654321''], birthday = None\<rparr>
       (add_record \<lparr>name = ustr ''Bob'', phones = [ustr ''1234567890''], birthday = None\<rparr>
          [(ustr ''Al'', \<lparr>name = ustr ''Al'', phones = [], birthday = None\<rparr>)]))
     = Some \<lparr>name = ustr ''Bob'', phones = [ustr ''0987654321''], birthday = None\<rparr>
   \<and> add_record \<lparr>name = ustr ''Bob'', phones = [ustr ''0987654321''], birthday = None\<rparr>
       (add_record \<lparr>name = ustr ''Bob'', phones = [ustr ''1234567890''], birthday = None\<rparr>
          [(ustr ''Al'', \<lparr>name = ustr ''Al'', phones = [], birthday = None\<rparr>)])
     = [(ustr ''Al'', \<lparr>name = ustr ''Al'', phones = [], birthday = None\<rparr>),
        (ustr ''Bob'', \<lparr>name = ustr ''Bob'', phones = [ustr ''0987654321''], birthday = None\<rparr>)]"
  (is "search ?k (add_record ?r2 (add_record ?r1 ?b)) = Some _ \<and> _ = ?out")
proof -
  have d: "distinct (map fst ?b)" by simp
  have n: "name ?r2 = name ?r1" by simp
  have "search (name ?r1) (add_record ?r2 (add_record ?r1 ?b)) = Some ?r2"
    using add_record_last_write_wins [of ?b ?r1 ?r2] d n by blast
  moreover have "add_record ?r2 (add_record ?r1 ?b) = ?out"
    by (simp add: add_record_def ustr_Nil ustr_Cons)
  ultimately show ?thesis by simp
qed

lemma write_back_keys: "map fst (write_back n v b) = map fst b"
  by (induction b) (auto simp: write_back_def)

lemma write_back_get:
  "map_of (write_back n v b) k = (if k = n then map_option (\<lambda>_. v) (map_of b n) else map_of b k)"
  by (induction b) (auto simp: write_back_def)

section \<open>The add command\<close>

text \<open>
  C10: when the \<open>add\<close> handler is called with a name that the book holds and a valid
  phone, it answers \<open>Phone added to <name>.\<close> and appends the phone to the record under
  that name: the record's name, its earlier phones in their order and its birthday are
  as before, every other name maps to what it mapped to before, and the keys of the book
  and their order are as before.
\<close>

theorem add_contact_existing:
  assumes "search n book = Some r" and "Phone phone = Inr phone"
  shows "fst (add_contact (n # phone # others) book) = Inr (ustr ''Phone added to '' @ n @ ustr ''.'')
    \<and> search n (snd (add_contact (n # phone # others) book)) = Some (r\<lparr>phones := phones r @ [phone]\<rparr>)
    \<and> (\<forall>k. k \<noteq> n \<longrightarrow> search k (snd (add_contact (n # phone # others) book)) = search k book)
    \<and> map fst (snd (add_contact (n # phone # others) book)) = map fst book"
  using assms
  by (simp add: add_contact_def add_contact_body_def unpack2_def add_phone_def input_error_def
      search_def write_back_keys write_back_get)

theorem add_contact_existing_witness:
  "add_contact [ustr ''Bob'', ustr ''0987654321'']
     [(ustr ''Al'', \<lparr>name = ustr ''Al'', phones = [], birthday = None\<rparr>),
      (ustr ''Bob'', \<lparr>name = ustr ''Bob'', phones = [ustr ''1234567890''],
                      birthday = Some (ustr ''20.05.2024'')\<rparr>)]
   = (Inr (ustr ''Phone added to Bob.''),
     [(ustr ''Al'', \<lparr>name = ustr ''Al'', phones = [], birthday = None\<rparr>),
      (ustr ''Bob'', \<lparr>name = ustr ''Bob'', phones = [ustr ''1234567890'', ustr ''0987654321''],
                      birthday = Some (ustr ''20.05.2024'')\<rparr>)])"
  (is "add_contact [?n, ?p] ?b = (Inr ?msg, ?out)")
proof -
  have s: "search ?n ?b = Some \<lparr>name = ustr ''Bob'', phones = [ustr ''1234567890''],
                      birthday = Some (ustr ''20.05.2024'')\<rparr>"
    by (simp add: search_def ustr_Nil ustr_Cons)
  have p: "Phone ?p = Inr ?p"
    by (rule Phone_digits) (simp_all add: ustr_Nil ustr_Cons in_range_def)
  have m: "fst (add_contact [?n, ?p] ?b) = Inr (ustr ''Phone added to '' @ ?n @ ustr ''.'')"
    using add_contact_existing [OF s p, of "[]"] by blast
  have o: "snd (add_contact [?n, ?p] ?b) = ?out"
    using p by (simp add: add_contact_def add_contact_body_def unpack2_def add_phone_def
        search_def write_back_def ustr_Nil ustr_Cons)
  have "ustr ''Phone added to '' @ ?n @ ustr ''.'' = ?msg"
    by (simp add: ustr_def)
  with m o show ?thesis by (metis prod.collapse)
qed

section \<open>Loading\<close>

text \<open>
  C7, as stated, fails: when the contents of the file are not a pickle, or when the file
  cannot be opened for reading, \<open>load_data\<close> raises.
\<close>

theorem load_data_corrupt_counterexample:
  "load_data Corrupt = Inl UnpicklingError \<and> load_data Unreadable = Inl PermissionError"
  by (simp add: load_data_def open_rb_def pickle_load_def)

text \<open>
  C7, amended: \<open>load_data\<close> returns an empty book when the file is absent and the saved
  book when the file holds one; when the contents are corrupt or the file is unreadable
  it raises the exception of the failed step.
\<close>

theorem load_data_cases:
  "load_data Absent = Inr []
   \<and> load_data (Saved book) = Inr book
   \<and> load_data Corrupt = Inl UnpicklingError
   \<and> load_data Unreadable = Inl PermissionError"
  by (simp add: load_data_def open_rb_def pickle_load_def)

section \<open>Birthdays\<close>

lemma isdecimal_cp_ascii: "in_range 48 57 c \<Longrightarrow> isdecimal_cp c"
  by (simp add: isdecimal_cp_def decimal_zeros_def in_run_def in_range_def)

lemma digit_value_ascii: "in_range 48 57 c \<Longrightarrow> digit_value c = c - 48"
  by (simp add: digit_value_def decimal_zeros_def in_run_def in_range_def)

lemma not_isdecimal_dot: "\<not> isdecimal_cp 46"
  by (simp add: isdecimal_cp_def decimal_zeros_def in_run_def)

lemma alt1_iff: "(t, r) \<in> set (alt1 p s) \<longleftrightarrow> (\<exists>a. t = [a] \<and> s = a # r \<and> p a)"
  by (cases s) (auto simp: alt1_def)

lemma alt2_iff: "(t, r) \<in> set (alt2 p q s) \<longleftrightarrow> (\<exists>a b. t = [a, b] \<and> s = a # b # r \<and> p a \<and> q b)"
proof (cases s)
  case Nil
  then show ?thesis by (simp add: alt2_def)
next
  case (Cons a s')
  then show ?thesis by (cases s') (auto simp: alt2_def)
qed

lemma day_text_iff:
  "day_text t \<longleftrightarrow>
     (\<exists>a. t = [a] \<and> in_range 49 57 a)
     \<or> (\<exists>a b. t = [a, b] \<and> ((a = 51 \<and> in_range 48 49 b) \<or> (in_range 49 50 a \<and> isdecimal_cp b)
                               \<or> ((a = 48 \<or> a = 32) \<and> in_range 49 57 b)))"
proof (cases t)
  case Nil
  then show ?thesis by (simp add: day_text_def)
next
  case (Cons a t')
  show ?thesis
  proof (cases t')
    case Nil
    then show ?thesis using Cons by (simp add: day_text_def)
  next
    case (Cons b t'')
    then show ?thesis using \<open>t = a # t'\<close> by (cases t'') (simp_all add: day_text_def)
  qed
qed

lemma month_text_iff:
  "month_text t \<longleftrightarrow>
     (\<exists>a. t = [a] \<and> in_range 49 57 a)
     \<or> (\<exists>a b. t = [a, b] \<and> ((a = 49 \<and> in_range 48 50 b) \<or> (a = 48 \<and> in_range 49 57 b)))"
proof (cases t)
  case Nil
  then show ?thesis by (simp add: month_text_def)
next
  case (Cons a t')
  show ?thesis
  proof (cases t')
    case Nil
    then show ?thesis using Cons by (simp add: month_text_def)
  next
    case (Cons b t'')
    then show ?thesis using \<open>t = a # t'\<close> by (cases t'') (simp_all add: month_text_def)
  qed
qed

lemma year_text_iff:
  "year_text t \<longleftrightarrow>
     (\<exists>a b c d. t = [a, b, c, d] \<and> isdecimal_cp a \<and> isdecimal_cp b \<and> isdecimal_cp c \<and> isdecimal_cp d)"
  by (auto simp: year_text_def length_Suc_conv eval_nat_numeral)

lemma re_d_iff: "(t, r) \<in> set (re_d s) \<longleftrightarrow> s = t @ r \<and> day_text t"
  by (auto simp: re_d_def alt1_iff alt2_iff day_text_iff in_range_def)

lemma re_m_iff: "(t, r) \<in> set (re_m s) \<longleftrightarrow> s = t @ r \<and> month_text t"
  by (auto simp: re_m_def alt1_iff alt2_iff month_text_iff in_range_def)

lemma re_Y_iff: "(t, r) \<in> set (re_Y s) \<longleftrightarrow> s = t @ r \<and> year_text t"
  by (auto simp: re_Y_def year_text_iff split: list.splits)

lemma re_dot_iff: "r \<in> set (re_dot s) \<longleftrightarrow> s = 46 # r"
  by (auto simp: re_dot_def split: list.splits)

lemma regex_matches_sound:
  "((d, m, y), r) \<in> set (regex_matches s) \<Longrightarrow>
     s = d @ 46 # m @ 46 # y @ r \<and> day_text d \<and> month_text m \<and> year_text y"
  unfolding regex_matches_def
  by (auto simp: re_d_iff re_m_iff re_Y_iff re_dot_iff)

lemma regex_matches_complete:
  assumes "day_text d" "month_text m" "year_text y"
  shows "((d, m, y), r) \<in> set (regex_matches (d @ 46 # m @ 46 # y @ r))"
proof -
  have 1: "(d, 46 # m @ 46 # y @ r) \<in> set (re_d (d @ 46 # m @ 46 # y @ r))"
    using assms by (simp add: re_d_iff)
  have 2: "m @ 46 # y @ r \<in> set (re_dot (46 # m @ 46 # y @ r))"
    by (simp add: re_dot_iff)
  have 3: "(m, 46 # y @ r) \<in> set (re_m (m @ 46 # y @ r))"
    using assms by (simp add: re_m_iff)
  have 4: "y @ r \<in> set (re_dot (46 # y @ r))"
    by (simp add: re_dot_iff)
  have 5: "(y, r) \<in> set (re_Y (y @ r))"
    using assms by (simp add: re_Y_iff)
  show ?thesis
    unfolding regex_matches_def using 1 2 3 4 5 by fastforce
qed

lemma day_text_no_dot: "day_text t \<Longrightarrow> 46 \<notin> set t"
  using not_isdecimal_dot by (auto simp: day_text_iff in_range_def)

lemma month_text_no_dot: "month_text t \<Longrightarrow> 46 \<notin> set t"
  by (auto simp: month_text_iff in_range_def)

lemma split_at_first:
  "x \<notin> set xs \<Longrightarrow> x \<notin> set xs' \<Longrightarrow> xs @ x # ys = xs' @ x # ys' \<Longrightarrow>
   xs = xs' \<and> ys = ys'"
proof (induction xs arbitrary: xs')
  case Nil
  then show ?case by (cases xs') auto
next
  case (Cons a xs)
  then show ?case by (cases xs') auto
qed

lemma regex_matches_unique:
  assumes a: "((d, m, y), r) \<in> set (regex_matches s)"
    and b: "((d', m', y'), r') \<in> set (regex_matches s)"
  shows "d = d' \<and> m = m' \<and> y = y' \<and> r = r'"
proof -
  note sa = regex_matches_sound [OF a] and sb = regex_matches_sound [OF b]
  have e: "d @ 46 # (m @ 46 # y @ r) = d' @ 46 # (m' @ 46 # y' @ r')"
    using sa sb by simp
  have nd: "46 \<notin> set d" "46 \<notin> set d'"
    using sa sb day_text_no_dot by blast+
  have nm: "46 \<notin> set m" "46 \<notin> set m'"
    using sa sb month_text_no_dot by blast+
  have 1: "d = d' \<and> m @ 46 # (y @ r) = m' @ 46 # (y' @ r')"
    using split_at_first [OF nd e] by simp
  then have 2: "m = m' \<and> y @ r = y' @ r'"
    using split_at_first [OF nm, of "y @ r" "y' @ r'"] by simp
  have "length y = length y'"
    using sa sb by (simp add: year_text_def)
  with 2 have "y = y' \<and> r = r'" by simp
  with 1 2 show ?thesis by simp
qed

lemma strptime_complete:
  assumes t: "day_text d" "month_text m" "year_text y"
  shows "strptime (d @ 46 # m @ 46 # y) = new_date (py_int y) (py_int m) (py_int d)"
proof -
  let ?s = "d @ 46 # m @ 46 # y"
  have i: "((d, m, y), []) \<in> set (regex_matches ?s)"
    using regex_matches_complete [OF t, of "[]"] by simp
  then obtain x xs where c: "regex_matches ?s = x # xs"
    by (cases "regex_matches ?s") auto
  obtain d' m' y' r' where x: "x = ((d', m', y'), r')"
    by (cases x) auto
  have "((d', m', y'), r') \<in> set (regex_matches ?s)"
    using c x by simp
  from regex_matches_unique [OF i this] have "x = ((d, m, y), [])"
    using x by simp
  with c show ?thesis by (simp add: strptime_def)
qed

lemma strptime_sound:
  assumes "strptime s = Inr dt"
  shows "\<exists>d m y. s = d @ 46 # m @ 46 # y \<and> day_text d \<and> month_text m \<and> year_text y
           \<and> new_date (py_int y) (py_int m) (py_int d) = Inr dt"
proof (cases "regex_matches s")
  case Nil
  then show ?thesis using assms by (simp add: strptime_def)
next
  case (Cons x xs)
  obtain d m y r where x: "x = ((d, m, y), r)"
    by (cases x) auto
  have "((d, m, y), r) \<in> set (regex_matches s)"
    using Cons x by simp
  note s = regex_matches_sound [OF this]
  have r: "r = []" and n: "new_date (py_int y) (py_int m) (py_int d) = Inr dt"
    using assms Cons x by (auto simp: strptime_def split: if_splits)
  show ?thesis using s r n by auto
qed

lemma Birthday_iff: "Birthday s = Inr s \<longleftrightarrow> (\<exists>dt. strptime s = Inr dt)"
proof (cases "strptime s")
  case (Inl e)
  then show ?thesis by (cases e) (simp_all add: Birthday_def InvalidDateFormat_def)
next
  case (Inr dt)
  then show ?thesis by (simp add: Birthday_def)
qed

lemma Birthday_fails: "Birthday s \<noteq> Inr s \<Longrightarrow> Birthday s = Inl InvalidDateFormat"
proof (cases "strptime s")
  case (Inl e)
  then show ?thesis using strptime_Inl [OF Inl] by (auto simp: Birthday_def)
next
  case (Inr dt)
  then show "Birthday s \<noteq> Inr s \<Longrightarrow> Birthday s = Inl InvalidDateFormat"
    by (simp add: Birthday_def)
qed

lemma Birthday_accepts:
  "Birthday s = Inr s \<longleftrightarrow>
     (\<exists>d m y. s = d @ [46] @ m @ [46] @ y \<and> day_text d \<and> month_text m \<and> year_text y
        \<and> valid_date \<lparr>year = py_int y, month = py_int m, day = py_int d\<rparr>)"
proof
  assume "Birthday s = Inr s"
  then obtain dt where "strptime s = Inr dt" using Birthday_iff by blast
  from strptime_sound [OF this] show "\<exists>d m y. s = d @ [46] @ m @ [46] @ y \<and> day_text d
      \<and> month_text m \<and> year_text y \<and> valid_date \<lparr>year = py_int y, month = py_int m, day = py_int d\<rparr>"
    by (auto simp: new_date_iff)
next
  assume "\<exists>d m y. s = d @ [46] @ m @ [46] @ y \<and> day_text d
      \<and> month_text m \<and> year_text y \<and> valid_date \<lparr>year = py_int y, month = py_int m, day = py_int d\<rparr>"
  then obtain d m y where s: "s = d @ 46 # m @ 46 # y" and t: "day_text d" "month_text m" "year_text y"
    and v: "valid_date \<lparr>year = py_int y, month = py_int m, day = py_int d\<rparr>"
    by auto
  have "strptime s = Inr \<lparr>year = py_int y, month = py_int m, day = py_int d\<rparr>"
    using strptime_complete [OF t] s v by (simp add: new_date_iff)
  then show "Birthday s = Inr s" using Birthday_iff by blast
qed

lemma days_in_month_le_31: "days_in_month y m \<le> 31"
  by (simp add: days_in_month_def)

lemma foldl_ascii:
  "list_all (in_range 48 57) t \<Longrightarrow>
   foldl (\<lambda>acc c. 10 * acc + digit_value c) acc t = foldl (\<lambda>acc c. 10 * acc + (c - 48)) acc t"
  by (induction t arbitrary: acc) (simp_all add: digit_value_ascii)

lemma dropWhile_ascii: "list_all (in_range 48 57) t \<Longrightarrow> dropWhile (\<lambda>c. c = 32) t = t"
  by (cases t) (simp_all add: in_range_def)

lemma py_int_ascii: "list_all (in_range 48 57) t \<Longrightarrow> py_int t = ascii_value t"
  by (simp add: py_int_def ascii_value_def dropWhile_ascii foldl_ascii)

lemma day_text_ascii:
  assumes "in_range 48 57 a" "in_range 48 57 b"
    and "1 \<le> ascii_value [a, b]" "ascii_value [a, b] \<le> 31"
  shows "day_text [a, b]"
proof -
  have "isdecimal_cp b" using assms(2) by (rule isdecimal_cp_ascii)
  then show ?thesis
    using assms by (simp add: day_text_def ascii_value_def in_range_def) arith
qed

lemma month_text_ascii:
  assumes "in_range 48 57 a" "in_range 48 57 b"
    and "1 \<le> ascii_value [a, b]" "ascii_value [a, b] \<le> 12"
  shows "month_text [a, b]"
  using assms by (simp add: month_text_def ascii_value_def in_range_def) arith

lemma spec_birthday_rule_accepted:
  assumes "spec_birthday_rule s"
  shows "Birthday s = Inr s"
proof -
  from assms obtain d1 d2 m1 m2 y1 y2 y3 y4 where
    s: "s = [d1, d2, 46, m1, m2, 46, y1, y2, y3, y4]"
    and dg: "list_all (in_range 48 57) [d1, d2]" "list_all (in_range 48 57) [m1, m2]"
      "list_all (in_range 48 57) [y1, y2, y3, y4]"
    and v: "valid_date \<lparr>year = ascii_value [y1, y2, y3, y4], month = ascii_value [m1, m2],
                          day = ascii_value [d1, d2]\<rparr>"
    by (auto simp: spec_birthday_rule_def split: list.splits)
  have dv: "1 \<le> ascii_value [d1, d2]" "ascii_value [d1, d2] \<le> 31"
    using v days_in_month_le_31 [of "ascii_value [y1, y2, y3, y4]" "ascii_value [m1, m2]"]
    by (simp_all add: valid_date_def calendar_date_def)
  have mv: "1 \<le> ascii_value [m1, m2]" "ascii_value [m1, m2] \<le> 12"
    using v by (simp_all add: valid_date_def calendar_date_def)
  have d: "day_text [d1, d2]"
    using dg(1) dv by (intro day_text_ascii) simp_all
  have m: "month_text [m1, m2]"
    using dg(2) mv by (intro month_text_ascii) simp_all
  have y: "year_text [y1, y2, y3, y4]"
    using dg(3) by (simp add: year_text_def isdecimal_cp_ascii)
  have "s = [d1, d2] @ [46] @ [m1, m2] @ [46] @ [y1, y2, y3, y4]"
    using s by simp
  moreover have "valid_date \<lparr>year = py_int [y1, y2, y3, y4], month = py_int [m1, m2],
                          day = py_int [d1, d2]\<rparr>"
    using v dg by (simp only: py_int_ascii)
  ultimately show ?thesis
    using d m y Birthday_accepts [of s] by blast
qed

text \<open>
  C4, as stated, fails: \<open>1.1.2024\<close>, with a day and a month of one digit each, is
  accepted and stored, although it does not have the form DD.MM.YYYY.
\<close>

theorem Birthday_short_counterexample:
  "Birthday (ustr ''1.1.2024'') = Inr (ustr ''1.1.2024'') \<and> \<not> spec_birthday_rule (ustr ''1.1.2024'')"
proof -
  have "strptime (ustr ''1.1.2024'') = Inr \<lparr>year = 2024, month = 1, day = 1\<rparr>"
    by (simp add: strptime_eval)
  then show ?thesis
    by (simp add: Birthday_def spec_birthday_rule_def ustr_Nil ustr_Cons)
qed

lemma Birthday_leap_day: "Birthday (ustr ''29.02.2024'') = Inr (ustr ''29.02.2024'')"
proof -
  have "strptime (ustr ''29.02.2024'') = Inr \<lparr>year = 2024, month = 2, day = 29\<rparr>"
    by (simp add: strptime_eval)
  then show ?thesis by (simp add: Birthday_def)
qed

lemma Birthday_no_leap_day: "Birthday (ustr ''29.02.2023'') = Inl InvalidDateFormat"
proof -
  have "strptime (ustr ''29.02.2023'') = Inl (ValueError (ustr ''day is out of range for month''))"
    by (simp add: strptime_eval)
  then show ?thesis by (simp add: Birthday_def)
qed

text \<open>
  C4, amended: construction succeeds, and stores the string, if and only if the string
  is a day text, a dot, a month text, a dot and a year text that together denote a date
  of the calendar with a year from 1 to 9999, where a day text is what \<open>%d\<close> matches
  (one digit 1-9, alone or after a zero or a blank, or 10 to 31), a month text is what
  \<open>%m\<close> matches (one digit 1-9, alone or after a zero, or 10 to 12) and a year text is
  exactly four decimal digits; every other string fails with the InvalidDateFormat
  error. Every string of the form DD.MM.YYYY that denotes a date of the calendar is
  accepted; \<open>29.02.2024\<close> succeeds and \<open>29.02.2023\<close> fails.
\<close>

theorem Birthday_accepts_iff:
  "(Birthday s = Inr s \<longleftrightarrow>
      (\<exists>d m y. s = d @ [46] @ m @ [46] @ y \<and> day_text d \<and> month_text m \<and> year_text y
         \<and> valid_date \<lparr>year = py_int y, month = py_int m, day = py_int d\<rparr>))
   \<and> (Birthday s \<noteq> Inr s \<longrightarrow> Birthday s = Inl InvalidDateFormat)
   \<and> (spec_birthday_rule s \<longrightarrow> Birthday s = Inr s)
   \<and> Birthday (ustr ''29.02.2024'') = Inr (ustr ''29.02.2024'')
   \<and> Birthday (ustr ''29.02.2023'') = Inl InvalidDateFormat"
  using Birthday_accepts [of s] Birthday_fails [of s] spec_birthday_rule_accepted [of s]
    Birthday_leap_day Birthday_no_leap_day
  by blast

theorem Birthday_accepts_iff_witness:
  "Birthday (ustr ''20.05.2024'') = Inr (ustr ''20.05.2024'')
   \<and> Birthday (ustr '' 5.5.2024'') = Inr (ustr '' 5.5.2024'')
   \<and> Birthday (ustr ''2024-05-20'') = Inl InvalidDateFormat
   \<and> Birthday (ustr ''31.04.2024'') = Inl InvalidDateFormat"
proof -
  have a: "spec_birthday_rule (ustr ''20.05.2024'')"
    by (simp add: spec_birthday_rule_def ustr_Nil ustr_Cons in_range_def ascii_value_def
        valid_date_def calendar_date_def days_in_month_def)
  have 1: "Birthday (ustr ''20.05.2024'') = Inr (ustr ''20.05.2024'')"
    using Birthday_accepts_iff [of "ustr ''20.05.2024''"] a by blast
  have b: "ustr '' 5.5.2024'' = ustr '' 5'' @ [46] @ ustr ''5'' @ [46] @ ustr ''2024''
      \<and> day_text (ustr '' 5'') \<and> month_text (ustr ''5'') \<and> year_text (ustr ''2024'')
      \<and> valid_date \<lparr>year = py_int (ustr ''2024''), month = py_int (ustr ''5''),
                       day = py_int (ustr '' 5'')\<rparr>"
    by (simp add: ustr_Nil ustr_Cons day_text_def month_text_def year_text_def in_range_def
        isdecimal_cp_def decimal_zeros_def in_run_def py_int_def digit_value_def
        valid_date_def calendar_date_def days_in_month_def)
  have 2: "Birthday (ustr '' 5.5.2024'') = Inr (ustr '' 5.5.2024'')"
    using Birthday_accepts_iff [of "ustr '' 5.5.2024''"] b by blast
  have c: "Birthday (ustr ''2024-05-20'') \<noteq> Inr (ustr ''2024-05-20'')"
    by (simp add: Birthday_def strptime_eval)
  have 3: "Birthday (ustr ''2024-05-20'') = Inl InvalidDateFormat"
    using Birthday_accepts_iff [of "ustr ''2024-05-20''"] c by blast
  have d: "Birthday (ustr ''31.04.2024'') \<noteq> Inr (ustr ''31.04.2024'')"
    by (simp add: Birthday_def strptime_eval)
  have 4: "Birthday (ustr ''31.04.2024'') = Inl InvalidDateFormat"
    using Birthday_accepts_iff [of "ustr ''31.04.2024''"] d by blast
  from 1 2 3 4 show ?thesis by blast
qed

section \<open>The invariant of the stored values\<close>

lemma Phone_Inr_ok: "Phone s = Inr v \<Longrightarrow> phone_ok v"
  by (auto simp: Phone_cases phone_ok_def split: if_splits)

lemma strptime_Inr_valid: "strptime s = Inr d \<Longrightarrow> valid_date d"
  unfolding strptime_def
  by (cases "regex_matches s") (auto split: prod.splits if_splits dest: new_date_Inr)

lemma Birthday_Inr_ok: "Birthday s = Inr v \<Longrightarrow> birthday_ok v"
proof (cases "strptime s")
  case (Inl e)
  then show "Birthday s = Inr v \<Longrightarrow> birthday_ok v"
    by (cases e) (simp_all add: Birthday_def)
next
  case (Inr d)
  then show "Birthday s = Inr v \<Longrightarrow> birthday_ok v"
    using strptime_Inr_valid [OF Inr] by (auto simp: Birthday_def birthday_ok_def)
qed

lemma update_phone_loop_ok:
  "list_all phone_ok ps \<Longrightarrow> list_all phone_ok (snd (update_phone_loop old_phone new_phone ps idx rest))"
proof (induction rest arbitrary: idx)
  case Nil
  then show ?case by simp
next
  case (Cons p rest)
  show ?case
  proof (cases "Phone new_phone")
    case (Inl e)
    then show ?thesis using Cons by simp
  next
    case (Inr v)
    have "list_all phone_ok (ps[idx := v])"
      using Cons.prems Phone_Inr_ok [OF Inr] set_update_subset_insert [of ps idx v]
      by (auto simp: list_all_iff)
    then show ?thesis using Cons Inr by simp
  qed
qed

lemma add_phone_ok: "record_ok r \<Longrightarrow> record_ok (snd (add_phone s r))"
  by (cases "Phone s") (auto simp: add_phone_def record_ok_def dest: Phone_Inr_ok)

lemma update_phone_ok: "record_ok r \<Longrightarrow> record_ok (snd (update_phone old_phone new_phone r))"
  using update_phone_loop_ok [of "phones r" old_phone new_phone 0 "phones r"]
  by (auto simp: update_phone_def record_ok_def split: prod.splits)

lemma delete_phone_ok: "record_ok r \<Longrightarrow> record_ok (delete_phone s r)"
  by (auto simp: delete_phone_def record_ok_def list_all_iff)

lemma set_birthday_ok: "record_ok r \<Longrightarrow> record_ok (snd (set_birthday s r))"
  by (cases "Birthday s") (auto simp: set_birthday_def record_ok_def dest: Birthday_Inr_ok)

lemma dict_set_ok: "book_ok book \<Longrightarrow> record_ok r \<Longrightarrow> book_ok (dict_set k r book)"
  by (induction book) (auto simp: book_ok_def)

lemma write_back_ok: "book_ok book \<Longrightarrow> record_ok r \<Longrightarrow> book_ok (write_back k r book)"
  by (auto simp: book_ok_def write_back_def list_all_iff split: if_splits)

lemma remove_record_ok: "book_ok book \<Longrightarrow> book_ok (snd (remove_record n book))"
  by (auto simp: book_ok_def remove_record_def list_all_iff)

lemma search_ok: "book_ok book \<Longrightarrow> search n book = Some r \<Longrightarrow> record_ok r"
  by (auto simp: book_ok_def search_def list_all_iff dest: map_of_SomeD)

lemma Record_init_ok: "record_ok (Record_init n)"
  by (simp add: record_ok_def Record_init_def)

lemma add_contact_ok: "book_ok book \<Longrightarrow> book_ok (snd (add_contact args book))"
proof -
  assume b: "book_ok book"
  show ?thesis
  proof (cases "unpack2 (take 2 args)")
    case (Inl e)
    then show ?thesis using b by (simp add: add_contact_def add_contact_body_def)
  next
    case (Inr np)
    obtain n p where np: "np = (n, p)" by (cases np)
    show ?thesis
    proof (cases "search n book")
      case None
      have "record_ok (snd (add_phone p (Record_init n)))"
        by (rule add_phone_ok) (rule Record_init_ok)
      then show ?thesis using b Inr np None
        by (cases "add_phone p (Record_init n)"; cases "fst (add_phone p (Record_init n))")
          (auto simp: add_contact_def add_contact_body_def add_record_def dict_set_ok)
    next
      case (Some r)
      have "record_ok (snd (add_phone p r))"
        using search_ok [OF b Some] by (rule add_phone_ok)
      then show ?thesis using b Inr np Some
        by (cases "add_phone p r"; cases "fst (add_phone p r)")
          (auto simp: add_contact_def add_contact_body_def write_back_ok)
    qed
  qed
qed

lemma birthday_ok_iff:
  "birthday_ok b \<longleftrightarrow>
     (\<exists>d m y. b = d @ [46] @ m @ [46] @ y \<and> day_text d \<and> month_text m \<and> year_text y
        \<and> valid_date \<lparr>year = py_int y, month = py_int m, day = py_int d\<rparr>)"
proof -
  have "birthday_ok b \<longleftrightarrow> (\<exists>dt. strptime b = Inr dt)"
  proof (cases "strptime b")
    case (Inl e)
    then show ?thesis by (simp add: birthday_ok_def)
  next
    case (Inr dt)
    then show ?thesis using strptime_Inr_valid [OF Inr] by (simp add: birthday_ok_def)
  qed
  then show ?thesis using Birthday_iff [of b] Birthday_accepts [of b] by simp
qed

lemma spec_record_ok_imp: "spec_record_ok r \<Longrightarrow> record_ok r"
proof -
  assume a: "spec_record_ok r"
  have p: "list_all phone_ok (phones r)"
    using a by (auto simp: spec_record_ok_def spec_phone_rule_def phone_ok_def list_all_iff
        intro: isdigit_cp_ascii)
  have "birthday_ok b" if "birthday r = Some b" for b
  proof -
    have "spec_birthday_rule b" using a that by (simp add: spec_record_ok_def)
    then have "Birthday b = Inr b" by (rule spec_birthday_rule_accepted)
    then show ?thesis by (rule Birthday_Inr_ok)
  qed
  with p show ?thesis by (cases "birthday r") (simp_all add: record_ok_def)
qed

text \<open>
  C8, as stated, fails: a new record satisfies the invariant of the specification, but
  \<open>add_phone\<close> stores ten characters SUPERSCRIPT TWO, which are not ten ASCII digits, and
  \<open>set_birthday\<close> stores \<open>1.1.2024\<close>, which does not have the form DD.MM.YYYY.
\<close>

theorem stored_values_valid_counterexample:
  "spec_record_ok (Record_init (ustr ''Al''))
   \<and> \<not> spec_record_ok (snd (add_phone [178, 178, 178, 178, 178, 178, 178, 178, 178, 178]
                                 (Record_init (ustr ''Al''))))
   \<and> \<not> spec_record_ok (snd (set_birthday (ustr ''1.1.2024'') (Record_init (ustr ''Al''))))"
proof -
  have 1: "spec_record_ok (Record_init (ustr ''Al''))"
    by (simp add: spec_record_ok_def Record_init_def)
  have p: "Phone [178, 178, 178, 178, 178, 178, 178, 178, 178, 178]
             = Inr [178, 178, 178, 178, 178, 178, 178, 178, 178, 178]"
    by (simp add: Phone_cases isdigit_cp_superscript_two)
  have 2: "\<not> spec_record_ok (snd (add_phone [178, 178, 178, 178, 178, 178, 178, 178, 178, 178]
                                 (Record_init (ustr ''Al''))))"
    by (simp add: add_phone_def p spec_record_ok_def spec_phone_rule_def in_range_def)
  have b: "strptime (ustr ''1.1.2024'') = Inr \<lparr>year = 2024, month = 1, day = 1\<rparr>"
    by (simp add: strptime_eval)
  have c: "Birthday (ustr ''1.1.2024'') = Inr (ustr ''1.1.2024'')"
    by (simp add: Birthday_def b)
  have d: "\<not> spec_birthday_rule (ustr ''1.1.2024'')"
    by (simp add: spec_birthday_rule_def ustr_Nil ustr_Cons)
  have 3: "\<not> spec_record_ok (snd (set_birthday (ustr ''1.1.2024'') (Record_init (ustr ''Al''))))"
    by (simp add: set_birthday_def c d spec_record_ok_def)
  from 1 2 3 show ?thesis by blast
qed

text \<open>
  C8, amended: the invariant that every operation preserves is the one of the code's own
  rules: every stored phone is a string of exactly 10 characters that \<open>str.isdigit\<close>
  accepts, and every stored birthday is a day text, a dot, a month text, a dot and a
  year text (what \<open>strptime\<close> parses) that denote a date of the calendar. A new record
  satisfies it; \<open>add_phone\<close>, \<open>update_phone\<close>, \<open>delete_phone\<close> and \<open>set_birthday\<close> take
  a record that satisfies it to one that does, whether they return or raise; the empty
  book satisfies it, \<open>add_record\<close> of such a record and \<open>remove_record\<close> preserve it,
  and so does the \<open>add\<close> handler, which mutates a record of the book in place; every
  record that \<open>search\<close> finds in such a book satisfies it. Every record that satisfies
  the invariant of the specification satisfies this one.
\<close>

theorem stored_values_valid:
  "record_ok (Record_init n)
   \<and> (record_ok r \<longrightarrow>
        record_ok (snd (add_phone s r))
        \<and> record_ok (snd (update_phone old_phone new_phone r))
        \<and> record_ok (delete_phone s r)
        \<and> record_ok (snd (set_birthday s r)))
   \<and> book_ok []
   \<and> (book_ok book \<and> record_ok r \<longrightarrow> book_ok (add_record r book))
   \<and> (book_ok book \<longrightarrow>
        book_ok (snd (remove_record k book))
        \<and> book_ok (snd (add_contact args book))
        \<and> (\<forall>r'. search k book = Some r' \<longrightarrow> record_ok r'))
   \<and> (record_ok r \<longleftrightarrow>
        list_all phone_ok (phones r) \<and> (\<forall>b. birthday r = Some b \<longrightarrow> birthday_ok b))
   \<and> (phone_ok s \<longleftrightarrow> length s = 10 \<and> list_all isdigit_cp s)
   \<and> (birthday_ok b \<longleftrightarrow>
        (\<exists>d m y. b = d @ [46] @ m @ [46] @ y \<and> day_text d \<and> month_text m \<and> year_text y
           \<and> valid_date \<lparr>year = py_int y, month = py_int m, day = py_int d\<rparr>))
   \<and> (spec_record_ok r \<longrightarrow> record_ok r)"
proof -
  have 1: "record_ok (Record_init n)
   \<and> (record_ok r \<longrightarrow>
        record_ok (snd (add_phone s r))
        \<and> record_ok (snd (update_phone old_phone new_phone r))
        \<and> record_ok (delete_phone s r)
        \<and> record_ok (snd (set_birthday s r)))
   \<and> book_ok []
   \<and> (book_ok book \<and> record_ok r \<longrightarrow> book_ok (add_record r book))
   \<and> (book_ok book \<longrightarrow>
        book_ok (snd (remove_record k book))
        \<and> book_ok (snd (add_contact args book))
        \<and> (\<forall>r'. search k book = Some r' \<longrightarrow> record_ok r'))"
    using Record_init_ok [of n] add_phone_ok [of r s] update_phone_ok [of r old_phone new_phone]
      delete_phone_ok [of r s] set_birthday_ok [of r s] dict_set_ok [of book r "name r"]
      remove_record_ok [of book k] add_contact_ok [of book args] search_ok [of book k]
    by (simp add: add_record_def book_ok_def)
  have 2: "record_ok r \<longleftrightarrow>
        list_all phone_ok (phones r) \<and> (\<forall>b. birthday r = Some b \<longrightarrow> birthday_ok b)"
    by (cases "birthday r") (simp_all add: record_ok_def)
  have 3: "phone_ok s \<longleftrightarrow> length s = 10 \<and> list_all isdigit_cp s"
    by (simp add: phone_ok_def)
  note 4 = birthday_ok_iff [of b]
  have 5: "spec_record_ok r \<longrightarrow> record_ok r"
    using spec_record_ok_imp [of r] by blast
  from 1 2 3 4 5 show ?thesis by (intro conjI) blast+
qed

theorem stored_values_valid_witness:
  "add_record (snd (set_birthday (ustr ''29.02.2024'')
       (snd (add_phone (ustr ''1234567890'') (Record_init (ustr ''Al'')))))) []
     = [(ustr ''Al'', \<lparr>name = ustr ''Al'', phones = [ustr ''1234567890''],
                       birthday = Some (ustr ''29.02.2024'')\<rparr>)]
   \<and> book_ok [(ustr ''Al'', \<lparr>name = ustr ''Al'', phones = [ustr ''1234567890''],
                       birthday = Some (ustr ''29.02.2024'')\<rparr>)]
   \<and> snd (add_phone (ustr ''12ab'') \<lparr>name = ustr ''Al'', phones = [ustr ''1234567890''],
                       birthday = Some (ustr ''29.02.2024'')\<rparr>)
     = \<lparr>name = ustr ''Al'', phones = [ustr ''1234567890''], birthday = Some (ustr ''29.02.2024'')\<rparr>
   \<and> record_ok (snd (set_birthday (ustr ''30.02.2024'')
       \<lparr>name = ustr ''Al'', phones = [ustr ''1234567890''], birthday = Some (ustr ''29.02.2024'')\<rparr>))"
  (is "add_record (snd (set_birthday ?B (snd (add_phone ?P (Record_init ?A))))) [] = ?book
       \<and> _ \<and> snd (add_phone ?Q ?R) = _ \<and> _")
proof -
  have p: "Phone ?P = Inr ?P"
    by (rule Phone_digits) (simp_all add: ustr_Nil ustr_Cons in_range_def)
  have b: "strptime ?B = Inr \<lparr>year = 2024, month = 2, day = 29\<rparr>"
    by (simp add: strptime_eval)
  have q: "Phone ?Q = Inl InvalidPhone"
    by (simp add: Phone_cases ustr_Nil ustr_Cons)
  have e: "add_record (snd (set_birthday ?B (snd (add_phone ?P (Record_init ?A))))) [] = ?book"
    using p b by (simp add: add_record_def set_birthday_def add_phone_def Record_init_def Birthday_def)
  have 1: "record_ok (Record_init ?A)"
    using stored_values_valid [where n = ?A] by blast
  have 2: "record_ok (snd (add_phone ?P (Record_init ?A)))"
    using stored_values_valid [where r = "Record_init ?A" and s = ?P] 1 by blast
  have 3: "record_ok (snd (set_birthday ?B (snd (add_phone ?P (Record_init ?A)))))"
    using stored_values_valid [where r = "snd (add_phone ?P (Record_init ?A))" and s = ?B] 2
    by blast
  have "book_ok (add_record (snd (set_birthday ?B (snd (add_phone ?P (Record_init ?A))))) [])"
    using stored_values_valid
      [where r = "snd (set_birthday ?B (snd (add_phone ?P (Record_init ?A))))" and book = "[]"] 3
    by blast
  then have 4: "book_ok ?book" using e by simp
  have r: "record_ok ?R" using 4 by (simp add: book_ok_def)
  have 5: "snd (add_phone ?Q ?R) = ?R"
    using q by (simp add: add_phone_def)
  have 6: "record_ok (snd (set_birthday (ustr ''30.02.2024'') ?R))"
    using stored_values_valid [where r = ?R and s = "ustr ''30.02.2024''"] r by blast
  from e 4 5 6 show ?thesis by blast
qed

end
